theory Spec2Isabelle
  imports Main "HOL-Library.Sublist"
begin

section \<open>JSON values and the Python operations applied to them\<close>

text \<open>
  \<^verbatim>\<open>convert_to_csvs.py\<close> works on what \<^verbatim>\<open>json.loads\<close> returns: \<^verbatim>\<open>None\<close>, booleans,
  numbers, strings, lists and dicts. A dict is an association list in insertion order;
  \<^verbatim>\<open>json.loads\<close> yields no repeated key, and a lookup takes the first binding. Numbers
  are integers here; no operation of the converter looks inside a number.
\<close>

datatype json =
    JNull
  | JBool bool
  | JInt int
  | JStr string
  | JArr "json list"
  | JObj "(string \<times> json) list"

text \<open>The exceptions the converter can run into.\<close>

datatype error = KeyError string | TypeError | AttributeError

text \<open>Sequencing of computations that may raise: the first exception propagates.\<close>

definition then_do :: "error + 'a \<Rightarrow> ('a \<Rightarrow> error + 'b) \<Rightarrow> error + 'b" where
  "then_do m f = (case m of Inl e \<Rightarrow> Inl e | Inr x \<Rightarrow> f x)"

text \<open>A list comprehension \<^verbatim>\<open>[f(x) for x in xs]\<close> whose body may raise.\<close>

fun map_raise :: "('a \<Rightarrow> error + 'b) \<Rightarrow> 'a list \<Rightarrow> error + 'b list" where
  "map_raise f [] = Inr []"
| "map_raise f (x # xs) =
     (case f x of Inl e \<Rightarrow> Inl e
      | Inr y \<Rightarrow> (case map_raise f xs of Inl e \<Rightarrow> Inl e | Inr ys \<Rightarrow> Inr (y # ys)))"

text \<open>A \<^verbatim>\<open>for\<close> loop that updates local state and whose body may raise.\<close>

fun fold_raise :: "('a \<Rightarrow> 's \<Rightarrow> error + 's) \<Rightarrow> 'a list \<Rightarrow> 's \<Rightarrow> error + 's" where
  "fold_raise f [] s = Inr s"
| "fold_raise f (x # xs) s =
     (case f x s of Inl e \<Rightarrow> Inl e | Inr s' \<Rightarrow> fold_raise f xs s')"

text \<open>\<^verbatim>\<open>x.get(k)\<close>: only a dict has the method; a missing key gives \<^verbatim>\<open>None\<close>.\<close>

fun py_get :: "json \<Rightarrow> string \<Rightarrow> error + json" where
  "py_get (JObj kvs) k = Inr (case map_of kvs k of None \<Rightarrow> JNull | Some v \<Rightarrow> v)"
| "py_get _ k = Inl AttributeError"

text \<open>\<^verbatim>\<open>x[k]\<close> with a string key: a missing key of a dict raises \<^verbatim>\<open>KeyError\<close>, every
  other kind of value raises \<^verbatim>\<open>TypeError\<close>.\<close>

fun py_getitem :: "json \<Rightarrow> string \<Rightarrow> error + json" where
  "py_getitem (JObj kvs) k = (case map_of kvs k of None \<Rightarrow> Inl (KeyError k) | Some v \<Rightarrow> Inr v)"
| "py_getitem _ k = Inl TypeError"

text \<open>Truth value of an object in an \<^verbatim>\<open>if\<close>.\<close>

fun truthy :: "json \<Rightarrow> bool" where
  "truthy JNull = False"
| "truthy (JBool b) = b"
| "truthy (JInt i) = (i \<noteq> 0)"
| "truthy (JStr s) = (s \<noteq> [])"
| "truthy (JArr xs) = (xs \<noteq> [])"
| "truthy (JObj kvs) = (kvs \<noteq> [])"

text \<open>\<^verbatim>\<open>len(x)\<close>.\<close>

fun py_len :: "json \<Rightarrow> error + nat" where
  "py_len (JStr s) = Inr (length s)"
| "py_len (JArr xs) = Inr (length xs)"
| "py_len (JObj kvs) = Inr (length kvs)"
| "py_len _ = Inl TypeError"

text \<open>The elements a \<^verbatim>\<open>for\<close> runs over: the items of a list, the characters of a
  string, the keys of a dict.\<close>

fun py_iter :: "json \<Rightarrow> error + json list" where
  "py_iter (JArr xs) = Inr xs"
| "py_iter (JStr s) = Inr (map (\<lambda>c. JStr [c]) s)"
| "py_iter (JObj kvs) = Inr (map (\<lambda>kv. JStr (fst kv)) kvs)"
| "py_iter _ = Inl TypeError"

text \<open>\<^verbatim>\<open>str.lower\<close> is a builtin of Python and follows the Unicode tables: every function
  that lower-cases takes it as the parameter \<open>str_lower\<close>. On a string of ASCII
  characters \<^verbatim>\<open>str.lower\<close> is \<open>ascii_lower\<close>, which the examples on ASCII text pass for
  the parameter.\<close>

definition is_upper :: "char \<Rightarrow> bool" where
  "is_upper c = (65 \<le> (of_char c :: nat) \<and> (of_char c :: nat) \<le> 90)"

definition lower_char :: "char \<Rightarrow> char" where
  "lower_char c = (if is_upper c then char_of ((of_char c :: nat) + 32) else c)"

definition ascii_lower :: "string \<Rightarrow> string" where
  "ascii_lower s = map lower_char s"

fun py_lower :: "(string \<Rightarrow> string) \<Rightarrow> json \<Rightarrow> error + string" where
  "py_lower str_lower (JStr s) = Inr (str_lower s)"
| "py_lower str_lower _ = Inl AttributeError"

text \<open>\<^verbatim>\<open>term.replace(" ", "")\<close>.\<close>

definition replace_spaces :: "string \<Rightarrow> string" where
  "replace_spaces s = filter (\<lambda>c. c \<noteq> CHR '' '') s"

text \<open>Lists and dicts cannot be members of a \<^verbatim>\<open>set\<close>.\<close>

fun hashable :: "json \<Rightarrow> bool" where
  "hashable (JArr xs) = False"
| "hashable (JObj kvs) = False"
| "hashable _ = True"

text \<open>Dicts built by the converter itself: \<^verbatim>\<open>d[k] = v\<close> keeps the position of a key that
  is already there and appends a new one; \<^verbatim>\<open>d[k]\<close> raises on a missing key.\<close>

fun dict_set :: "(string \<times> 'v) list \<Rightarrow> string \<Rightarrow> 'v \<Rightarrow> (string \<times> 'v) list" where
  "dict_set [] k v = [(k, v)]"
| "dict_set (kv # d) k v = (if fst kv = k then (k, v) # d else kv # dict_set d k v)"

definition dict_getitem :: "(string \<times> 'v) list \<Rightarrow> string \<Rightarrow> error + 'v" where
  "dict_getitem d k = (case map_of d k of None \<Rightarrow> Inl (KeyError k) | Some v \<Rightarrow> Inr v)"

text \<open>\<^verbatim>\<open>{field: v for field in fields}\<close>.\<close>

definition dict_fromkeys :: "string list \<Rightarrow> 'v \<Rightarrow> (string \<times> 'v) list" where
  "dict_fromkeys fields v = fold (\<lambda>field d. dict_set d field v) fields []"

section \<open>The schema constants\<close>

definition BASIC_FIELDS :: "string list" where
  "BASIC_FIELDS =
     [''timestamp_ms'', ''in_reply_to_screen_name'', ''in_reply_to_user_id_str'',
      ''favorite_count'', ''quote_count'', ''coordinates'', ''favorited'', ''id_str'',
      ''text'', ''in_reply_to_user_id'', ''place'', ''geo'', ''retweet_count'',
      ''reply_count'', ''in_reply_to_status_id'', ''retweeted'', ''is_quote_status'',
      ''filter_level'', ''lang'', ''in_reply_to_status_id_str'', ''created_at'',
      ''source'', ''contributors'']"

definition USER_FIELDS :: "string list" where
  "USER_FIELDS =
     [''statuses_count'', ''utc_offset'', ''listed_count'', ''translator_type'',
      ''followers_count'', ''time_zone'', ''name'', ''protected'', ''screen_name'',
      ''is_translator'', ''contributors_enabled'', ''url'', ''id_str'', ''location'',
      ''created_at'', ''geo_enabled'', ''description'', ''lang'', ''profile_image_url'',
      ''profile_background_image_url'', ''favourites_count'', ''verified'',
      ''friends_count'']"

definition ENTITY_FIELDS :: "string list" where
  "ENTITY_FIELDS =
     [''urls'', ''user_id_mentions'', ''user_screenname_mentions'', ''symbols'',
      ''hashtags'', ''media'']"

definition USER_FIELDS_OUT :: "string list" where
  "USER_FIELDS_OUT = map (\<lambda>field. ''user.'' @ field) USER_FIELDS"

definition TWEET_REF_FIELDS :: "string list" where
  "TWEET_REF_FIELDS = [''retweeted_status'', ''quoted_status'']"

definition FIELDNAMES :: "string list" where
  "FIELDNAMES = BASIC_FIELDS @ TWEET_REF_FIELDS @ ENTITY_FIELDS @ [''user.id_str'']"

section \<open>The keyword filter\<close>

text \<open>The three checks a filter can run; \<open>FILTERS\<close> is the table of \<^verbatim>\<open>__init__\<close>, in its
  order.\<close>

datatype check = Author | Text | Entities

definition FILTERS :: "(string \<times> check) list" where
  "FILTERS = [(''author'', Author), (''text'', Text), (''entities'', Entities)]"

text \<open>The attributes of a \<^verbatim>\<open>KeywordFilter\<close>. \<^verbatim>\<open>self.keywords\<close> may be \<^verbatim>\<open>None\<close>
  (\<^verbatim>\<open>decide_write\<close> tests for it), \<^verbatim>\<open>self.flag\<close> is the name of the flag column,
  \<open>self_filters\<close> are the keys of \<^verbatim>\<open>self.filters\<close> in dict order.\<close>

record keywordfilter =
  self_keywords :: "string list option"
  self_flag :: "string option"
  self_do_filter :: bool
  self_filters :: "check list"

text \<open>\<^verbatim>\<open>KeywordFilter.__init__\<close>. The argument \<open>flts\<close> is \<^verbatim>\<open>None\<close> or a list of field
  names; an empty list is falsy. The body has no \<^verbatim>\<open>raise\<close> and no lookup that can fail,
  so the result is always \<open>Inr\<close>.\<close>

definition KeywordFilter_init ::
  "string list option \<Rightarrow> string option \<Rightarrow> bool \<Rightarrow> string list option \<Rightarrow> error + keywordfilter"
where
  "KeywordFilter_init kws flg dof flts =
     Inr \<lparr> self_keywords = kws, self_flag = flg, self_do_filter = dof,
           self_filters =
             (case flts of
                Some (f # fs) \<Rightarrow> map snd (filter (\<lambda>entry. fst entry \<in> set (f # fs)) FILTERS)
              | _ \<Rightarrow> map snd FILTERS) \<rparr>"

text \<open>\<^verbatim>\<open>any(p(term) for term in self.keywords)\<close>: iterating \<^verbatim>\<open>None\<close> raises.\<close>

definition any_keyword :: "keywordfilter \<Rightarrow> (string \<Rightarrow> bool) \<Rightarrow> error + bool" where
  "any_keyword self p =
     (case self_keywords self of None \<Rightarrow> Inl TypeError | Some kws \<Rightarrow> Inr (list_ex p kws))"

definition check_author :: "keywordfilter \<Rightarrow> json \<Rightarrow> error + bool" where
  "check_author self tweet =
     then_do (py_getitem tweet ''user'') (\<lambda>user.
     then_do (py_getitem user ''screen_name'') (\<lambda>author.
     any_keyword self (\<lambda>term. JStr (replace_spaces term) = author)))"

text \<open>\<^verbatim>\<open>[h['text'].lower() for h in hs]\<close> and \<^verbatim>\<open>[m['screen_name'] for m in ms]\<close>.\<close>

definition lowered_texts :: "(string \<Rightarrow> string) \<Rightarrow> json \<Rightarrow> error + json list" where
  "lowered_texts str_lower hs =
     then_do (py_iter hs)
       (map_raise (\<lambda>h. then_do (py_getitem h ''text'') (\<lambda>t.
                        then_do (py_lower str_lower t) (\<lambda>s. Inr (JStr s)))))"

definition screen_names :: "json \<Rightarrow> error + json list" where
  "screen_names ms = then_do (py_iter ms) (map_raise (\<lambda>m. py_getitem m ''screen_name''))"

text \<open>The block \<^verbatim>\<open>check_entities\<close> runs on \<^verbatim>\<open>extended_tweet['entities']\<close> and again on
  \<^verbatim>\<open>extended_tweet['extended_entities']\<close>.\<close>

definition extend_from :: "(string \<Rightarrow> string) \<Rightarrow> json \<Rightarrow> json list \<times> json list \<Rightarrow> error + (json list \<times> json list)" where
  "extend_from str_lower extended_entities hm =
     (if truthy extended_entities then
        then_do (py_get extended_entities ''hashtags'') (\<lambda>hashtags1.
        then_do (py_get extended_entities ''user_mentions'') (\<lambda>mentions1.
        then_do (if truthy hashtags1
                 then then_do (lowered_texts str_lower hashtags1) (\<lambda>hs. Inr (fst hm @ hs))
                 else Inr (fst hm)) (\<lambda>hashtags.
        then_do (if truthy mentions1
                 then then_do (screen_names mentions1) (\<lambda>ms. Inr (snd hm @ ms))
                 else Inr (snd hm)) (\<lambda>mentions.
        Inr (hashtags, mentions)))))
      else Inr hm)"

definition check_entities :: "(string \<Rightarrow> string) \<Rightarrow> keywordfilter \<Rightarrow> json \<Rightarrow> error + bool" where
  "check_entities str_lower self tweet =
     then_do (py_get tweet ''entities'') (\<lambda>entities.
     then_do (if truthy entities then
                then_do (py_get entities ''hashtags'') (\<lambda>hs.
                then_do (lowered_texts str_lower hs) (\<lambda>hashtags.
                then_do (py_get entities ''user_mentions'') (\<lambda>ms.
                then_do (screen_names ms) (\<lambda>mentions.
                Inr (hashtags, mentions)))))
              else Inr ([], [])) (\<lambda>hm.
     then_do (py_getitem tweet ''truncated'') (\<lambda>truncated.
     then_do (if truthy truncated then
                then_do (py_getitem tweet ''extended_tweet'') (\<lambda>extended.
                then_do (py_get extended ''entities'') (\<lambda>extended_entities1.
                then_do (extend_from str_lower extended_entities1 hm) (\<lambda>hm1.
                then_do (py_getitem tweet ''extended_tweet'') (\<lambda>extended.
                then_do (py_get extended ''extended_entities'') (\<lambda>extended_entities2.
                extend_from str_lower extended_entities2 hm1)))))
              else Inr hm) (\<lambda>hm2.
     (let vals = fst hm2 @ snd hm2 in
      if list_ex (\<lambda>v. \<not> hashable v) vals then Inl TypeError
      else any_keyword self (\<lambda>term. JStr term \<in> set vals))))))"

definition check_text :: "(string \<Rightarrow> string) \<Rightarrow> keywordfilter \<Rightarrow> json \<Rightarrow> error + bool" where
  "check_text str_lower self tweet =
     then_do (py_getitem tweet ''truncated'') (\<lambda>truncated.
     then_do (if truthy truncated
              then then_do (py_getitem tweet ''extended_tweet'') (\<lambda>extended.
                   py_getitem extended ''full_text'')
              else py_getitem tweet ''text'') (\<lambda>text.
     then_do (py_lower str_lower text) (\<lambda>text.
     any_keyword self (\<lambda>term. sublist term text))))"

text \<open>\<^verbatim>\<open>self.filters[field](tweet)\<close>.\<close>

fun run_check :: "(string \<Rightarrow> string) \<Rightarrow> check \<Rightarrow> keywordfilter \<Rightarrow> json \<Rightarrow> error + bool" where
  "run_check str_lower Author self tweet = check_author self tweet"
| "run_check str_lower Text self tweet = check_text str_lower self tweet"
| "run_check str_lower Entities self tweet = check_entities str_lower self tweet"

text \<open>The list comprehension of \<^verbatim>\<open>check_tweet\<close> runs every enabled check before \<^verbatim>\<open>any\<close>
  looks at the results.\<close>

definition check_tweet :: "(string \<Rightarrow> string) \<Rightarrow> keywordfilter \<Rightarrow> json \<Rightarrow> error + bool" where
  "check_tweet str_lower self tweet =
     then_do (map_raise (\<lambda>field. run_check str_lower field self tweet) (self_filters self)) (\<lambda>filter_results.
     Inr (list_ex (\<lambda>r. r) filter_results))"

definition decide_write :: "(string \<Rightarrow> string) \<Rightarrow> keywordfilter \<Rightarrow> json \<Rightarrow> error + bool" where
  "decide_write str_lower self tweet =
     then_do (check_tweet str_lower self tweet) (\<lambda>has_keyword.
     Inr (self_keywords self = None \<or> self_do_filter self = False \<or>
          (self_do_filter self \<and> has_keyword)))"

section \<open>Parsing\<close>

text \<open>The test \<^verbatim>\<open>x is not None and len(x) > 0\<close> and the comprehension
  \<^verbatim>\<open>[u[key] for u in xs]\<close> of \<^verbatim>\<open>parse_entity_details\<close>.\<close>

definition nonempty :: "json \<Rightarrow> error + bool" where
  "nonempty x = (if x \<noteq> JNull then then_do (py_len x) (\<lambda>n. Inr (0 < n)) else Inr False)"

definition pluck :: "string \<Rightarrow> json \<Rightarrow> error + json list" where
  "pluck key xs = then_do (py_iter xs) (map_raise (\<lambda>u. py_getitem u key))"

definition parse_entity_details :: "json \<Rightarrow> error + (string \<times> json list) list" where
  "parse_entity_details entities =
     (let record = dict_fromkeys ENTITY_FIELDS [] in
      if entities \<noteq> JNull then
        then_do (py_get entities ''urls'') (\<lambda>urls.
        then_do (nonempty urls) (\<lambda>some_urls.
        then_do (if some_urls then pluck ''expanded_url'' urls else Inr []) (\<lambda>url_links.
        let record = dict_set record ''urls'' url_links in
        then_do (py_get entities ''media'') (\<lambda>media.
        then_do (nonempty media) (\<lambda>some_media.
        then_do (if some_media then pluck ''media_url'' media else Inr []) (\<lambda>media_links.
        let record = dict_set record ''media'' media_links in
        then_do (py_get entities ''hashtags'') (\<lambda>hashtags.
        then_do (nonempty hashtags) (\<lambda>some_hashtags.
        then_do (if some_hashtags
                 then then_do (pluck ''text'' hashtags) (\<lambda>hs.
                      Inr (dict_set record ''hashtags'' hs))
                 else Inr record) (\<lambda>record.
        then_do (py_get entities ''user_mentions'') (\<lambda>mentions.
        then_do (nonempty mentions) (\<lambda>some_mentions.
        then_do (if some_mentions
                 then then_do (pluck ''id_str'' mentions) (\<lambda>ids.
                      then_do (pluck ''screen_name'' mentions) (\<lambda>names.
                      Inr (dict_set (dict_set record ''user_id_mentions'' ids)
                             ''user_screenname_mentions'' names)))
                 else Inr record) (\<lambda>record.
        then_do (py_get entities ''symbols'') (\<lambda>symbols.
        then_do (nonempty symbols) (\<lambda>some_symbols.
        if some_symbols
        then then_do (pluck ''text'' symbols) (\<lambda>ss. Inr (dict_set record ''symbols'' ss))
        else Inr record))))))))))))))
      else Inr record)"

text \<open>The loop \<^verbatim>\<open>for field in ENTITY_FIELDS: parsed_entities[field].extend(other[field])\<close>.\<close>

definition extend_fields ::
  "(string \<times> json list) list \<Rightarrow> (string \<times> json list) list \<Rightarrow> error + (string \<times> json list) list"
where
  "extend_fields parsed_entities other =
     fold_raise (\<lambda>field parsed.
        then_do (dict_getitem parsed field) (\<lambda>xs.
        then_do (dict_getitem other field) (\<lambda>ys.
        Inr (dict_set parsed field (xs @ ys)))))
       ENTITY_FIELDS parsed_entities"

definition extract_entities :: "json \<Rightarrow> error + (string \<times> json list) list" where
  "extract_entities tweet =
     then_do (py_get tweet ''entities'') (\<lambda>entities.
     then_do (parse_entity_details entities) (\<lambda>parsed_entities.
     then_do (py_get tweet ''truncated'') (\<lambda>truncated.
     if truncated = JBool True then
       then_do (py_get tweet ''extended_tweet'') (\<lambda>extended.
       then_do (py_get extended ''entities'') (\<lambda>entities2.
       then_do (if entities2 \<noteq> JNull
                then then_do (parse_entity_details entities2) (extend_fields parsed_entities)
                else Inr parsed_entities) (\<lambda>parsed_entities.
       then_do (py_get extended ''extended_entities'') (\<lambda>ext_entities.
       if ext_entities \<noteq> JNull
       then then_do (parse_entity_details ext_entities) (extend_fields parsed_entities)
       else Inr parsed_entities))))
     else Inr parsed_entities)))"

definition record_user :: "json \<Rightarrow> error + (string \<times> json) list" where
  "record_user tweet =
     then_do (py_get tweet ''user'') (\<lambda>user.
     let user_record = dict_fromkeys USER_FIELDS_OUT JNull in
     then_do (py_get tweet ''created_at'') (\<lambda>created_at.
     let user_record = dict_set user_record ''tweet.created_at'' created_at in
     fold_raise (\<lambda>field user_record.
        then_do (py_get user field) (\<lambda>v.
        Inr (dict_set user_record (''user.'' @ field) v)))
       USER_FIELDS user_record))"

text \<open>The bodies of the three loops of \<^verbatim>\<open>record_tweet\<close> and its step for truncated
  tweets; the state of the last loop is the record and \<^verbatim>\<open>record_refs\<close>.\<close>

definition copy_basic :: "json \<Rightarrow> string \<Rightarrow> (string \<times> json) list \<Rightarrow> error + (string \<times> json) list" where
  "copy_basic tweet field record =
     then_do (py_get tweet field) (\<lambda>v. Inr (dict_set record field v))"

definition take_full_text :: "json \<Rightarrow> (string \<times> json) list \<Rightarrow> error + (string \<times> json) list" where
  "take_full_text tweet record =
     then_do (py_get tweet ''truncated'') (\<lambda>truncated.
     if truncated = JBool True
     then then_do (py_get tweet ''extended_tweet'') (\<lambda>extended.
          then_do (py_get extended ''full_text'') (\<lambda>full_text.
          Inr (dict_set record ''text'' full_text)))
     else Inr record)"

definition copy_entity ::
  "(string \<times> json list) list \<Rightarrow> string \<Rightarrow> (string \<times> json) list \<Rightarrow> error + (string \<times> json) list"
where
  "copy_entity entities field record =
     then_do (dict_getitem entities field) (\<lambda>vs. Inr (dict_set record field (JArr vs)))"

definition copy_ref ::
  "json \<Rightarrow> string \<Rightarrow> (string \<times> json) list \<times> json list \<Rightarrow>
     error + ((string \<times> json) list \<times> json list)"
where
  "copy_ref tweet field rr =
     then_do (py_get tweet field) (\<lambda>ref.
     if ref \<noteq> JNull
     then then_do (py_get ref ''id_str'') (\<lambda>ref_id.
          Inr (dict_set (fst rr) field ref_id, snd rr @ [ref]))
     else Inr rr)"

definition record_tweet :: "json \<Rightarrow> error + ((string \<times> json) list \<times> json list)" where
  "record_tweet tweet =
     (let record = dict_fromkeys FIELDNAMES JNull in
      then_do (fold_raise (copy_basic tweet) BASIC_FIELDS record) (\<lambda>record.
      then_do (take_full_text tweet record) (\<lambda>record.
      then_do (extract_entities tweet) (\<lambda>entities.
      then_do (fold_raise (copy_entity entities) ENTITY_FIELDS record) (\<lambda>record.
      fold_raise (copy_ref tweet) TWEET_REF_FIELDS (record, []))))))"

section \<open>Notions for stating the properties of the parser\<close>

text \<open>What \<^verbatim>\<open>parse_entity_details\<close> computes for one kind of entity.\<close>

definition kind_links :: "string \<Rightarrow> json \<Rightarrow> error + json list" where
  "kind_links key xs = then_do (nonempty xs) (\<lambda>some. if some then pluck key xs else Inr [])"

text \<open>The dict \<^verbatim>\<open>parse_entity_details\<close> returns always has the six keys of
  \<^verbatim>\<open>ENTITY_FIELDS\<close>, in this order.\<close>

definition entity_record ::
  "json list \<Rightarrow> json list \<Rightarrow> json list \<Rightarrow> json list \<Rightarrow> json list \<Rightarrow> json list \<Rightarrow>
     (string \<times> json list) list"
where
  "entity_record urls ids names symbols hashtags media =
     [(''urls'', urls), (''user_id_mentions'', ids), (''user_screenname_mentions'', names),
      (''symbols'', symbols), (''hashtags'', hashtags), (''media'', media)]"

text \<open>The specification's reading of one level: the values of \<open>key\<close> over the entity
  objects listed under \<open>kind\<close>, in their order; nothing when the kind is absent.\<close>

fun spec_item_value :: "string \<Rightarrow> json \<Rightarrow> json" where
  "spec_item_value key (JObj obj) = (case map_of obj key of Some v \<Rightarrow> v | None \<Rightarrow> JNull)"
| "spec_item_value key _ = JNull"

definition spec_level_values :: "json \<Rightarrow> string \<Rightarrow> string \<Rightarrow> json list" where
  "spec_level_values entities kind key =
     (case py_get entities kind of
        Inr (JArr items) \<Rightarrow> map (spec_item_value key) items
      | _ \<Rightarrow> [])"

text \<open>An entities member is well formed when it is absent, or an object in which every
  kind is absent or a list of objects that carry the members the parser reads.\<close>

fun has_member :: "string \<Rightarrow> json \<Rightarrow> bool" where
  "has_member key (JObj obj) = (map_of obj key \<noteq> None)"
| "has_member key _ = False"

definition well_formed_kind :: "json \<Rightarrow> string \<Rightarrow> string list \<Rightarrow> bool" where
  "well_formed_kind entities kind keys =
     (case py_get entities kind of
        Inr JNull \<Rightarrow> True
      | Inr (JArr items) \<Rightarrow> list_all (\<lambda>item. list_all (\<lambda>key. has_member key item) keys) items
      | _ \<Rightarrow> False)"

definition well_formed_entities :: "json \<Rightarrow> bool" where
  "well_formed_entities entities =
     (entities = JNull \<or>
      well_formed_kind entities ''urls'' [''expanded_url''] \<and>
      well_formed_kind entities ''media'' [''media_url''] \<and>
      well_formed_kind entities ''hashtags'' [''text''] \<and>
      well_formed_kind entities ''user_mentions'' [''id_str'', ''screen_name''] \<and>
      well_formed_kind entities ''symbols'' [''text''])"

section \<open>Writing and the driver\<close>

text \<open>The two files \<^verbatim>\<open>write_record_to_file\<close> appends to, as the rows written so far. A
  row holds the columns of \<^verbatim>\<open>fieldnames\<close> only (\<^verbatim>\<open>extrasaction='ignore'\<close>); a missing
  key and \<^verbatim>\<open>None\<close> both give an empty cell. The header line is left out.\<close>

record files =
  tweets_csv :: "(string \<times> json) list list"
  users_csv :: "(string \<times> json) list list"

definition csv_row :: "string list \<Rightarrow> (string \<times> json) list \<Rightarrow> (string \<times> json) list" where
  "csv_row fieldnames record =
     map (\<lambda>f. (f, case map_of record f of None \<Rightarrow> JNull | Some v \<Rightarrow> v)) fieldnames"

definition write_record_to_file ::
  "(string \<times> json) list \<Rightarrow> files \<Rightarrow> bool \<Rightarrow> string option \<Rightarrow> files"
where
  "write_record_to_file record out is_user keywordflag =
     (if is_user
      then out\<lparr>users_csv := users_csv out @ [csv_row USER_FIELDS_OUT record]\<rparr>
      else out\<lparr>tweets_csv := tweets_csv out @
             [csv_row (case keywordflag of
                         Some (c # cs) \<Rightarrow> FIELDNAMES @ [c # cs]
                       | _ \<Rightarrow> FIELDNAMES) record]\<rparr>)"

text \<open>The two branches at the head of \<^verbatim>\<open>process_tweet\<close>: the flag column and the
  decision to write.\<close>

definition keyword_flag_of :: "keywordfilter option \<Rightarrow> string option" where
  "keyword_flag_of keywordfilter =
     (case keywordfilter of Some self \<Rightarrow> self_flag self | None \<Rightarrow> None)"

definition write_decision :: "(string \<Rightarrow> string) \<Rightarrow> keywordfilter option \<Rightarrow> json \<Rightarrow> error + bool" where
  "write_decision str_lower keywordfilter tweet =
     (case keywordfilter of Some self \<Rightarrow> decide_write str_lower self tweet | None \<Rightarrow> Inr True)"

text \<open>The records \<^verbatim>\<open>process_tweet\<close> builds before it writes: \<^verbatim>\<open>record_tweet\<close>, the flag
  column when the flag name is truthy, \<^verbatim>\<open>record_user\<close>, and the copy of
  \<^verbatim>\<open>user.id_str\<close>.\<close>

definition flat_records ::
  "(string \<Rightarrow> string) \<Rightarrow> json \<Rightarrow> keywordfilter option \<Rightarrow>
     error + ((string \<times> json) list \<times> (string \<times> json) list \<times> json list)"
where
  "flat_records str_lower tweet keywordfilter =
     then_do (record_tweet tweet) (\<lambda>rr.
     then_do (case keywordfilter of
                Some self \<Rightarrow>
                  (case self_flag self of
                     Some (c # cs) \<Rightarrow>
                       then_do (check_tweet str_lower self tweet) (\<lambda>b.
                       Inr (dict_set (fst rr) (c # cs) (JBool b)))
                   | _ \<Rightarrow> Inr (fst rr))
              | None \<Rightarrow> Inr (fst rr)) (\<lambda>record.
     then_do (record_user tweet) (\<lambda>user_record.
     then_do (dict_getitem user_record ''user.id_str'') (\<lambda>user_id.
     Inr (dict_set record ''user.id_str'' user_id, user_record, snd rr)))))"

text \<open>\<^verbatim>\<open>process_tweet\<close>, with the loop over \<^verbatim>\<open>refs\<close> as \<open>process_refs\<close>. The result is
  the files as written so far and the exception that ended the call, if any. The
  recursion ends because the embedded tweets \<^verbatim>\<open>record_tweet\<close> hands back are members of
  the tweet, hence smaller.\<close>

function process_tweet :: "(string \<Rightarrow> string) \<Rightarrow> json \<Rightarrow> files \<Rightarrow> keywordfilter option \<Rightarrow> files \<times> error option"
  and process_refs :: "(string \<Rightarrow> string) \<Rightarrow> json list \<Rightarrow> files \<Rightarrow> keywordfilter option \<Rightarrow> files \<times> error option"
where
  "process_tweet str_lower tweet out keywordfilter =
     (case write_decision str_lower keywordfilter tweet of
        Inl e \<Rightarrow> (out, Some e)
      | Inr write_record \<Rightarrow>
          if write_record then
            (case flat_records str_lower tweet keywordfilter of
               Inl e \<Rightarrow> (out, Some e)
             | Inr (record, user_record, refs) \<Rightarrow>
                 process_refs str_lower refs
                   (write_record_to_file user_record
                      (write_record_to_file record out False (keyword_flag_of keywordfilter))
                      True (keyword_flag_of keywordfilter))
                   keywordfilter)
          else (out, None))"
| "process_refs str_lower [] out keywordfilter = (out, None)"
| "process_refs str_lower (ref # refs) out keywordfilter =
     (case process_tweet str_lower ref out keywordfilter of
        (out', Some e) \<Rightarrow> (out', Some e)
      | (out', None) \<Rightarrow> process_refs str_lower refs out' keywordfilter)"
  by pat_completeness auto
termination
proof (relation "measures
    [\<lambda>x. case x of Inl (_, tweet, _, _) \<Rightarrow> size tweet
               | Inr (_, refs, _, _) \<Rightarrow> fold max (map size refs) 0,
     \<lambda>x. case x of Inl _ \<Rightarrow> 0 | Inr (_, refs, _, _) \<Rightarrow> length refs]", goal_cases)
  case 1
  show ?case by simp
next
  case (2 str_lower tweet out keywordfilter b x2 rec y user_rec refs)
  have member: "size v < size (JObj kvs)" if "map_of kvs k = Some v" for kvs k and v :: json
    using that by (induction kvs) (auto split: if_splits)
  have got: "size v < size t" if "py_get t k = Inr v" "v \<noteq> JNull" for t k v
    using that by (cases t) (auto split: option.splits dest: member)
  obtain r0 where r0: "record_tweet tweet = Inr (r0, refs)"
    using 2 by (cases "record_tweet tweet")
      (auto simp: flat_records_def then_do_def split: sum.splits)
  have small: "\<forall>n\<in>set (map size refs). n < size tweet"
    using r0
    by (auto simp: record_tweet_def copy_ref_def then_do_def TWEET_REF_FIELDS_def Let_def
        split: sum.splits if_splits dest: got)
  have "\<exists>kvs. tweet = JObj kvs"
    using r0 by (cases tweet)
      (simp_all add: record_tweet_def copy_basic_def then_do_def BASIC_FIELDS_def Let_def)
  then have pos: "0 < size tweet"
    by auto
  have "fold max ns m < bnd" if "\<forall>n\<in>set ns. n < bnd" "m < bnd" for ns and m bnd :: nat
    using that by (induction ns arbitrary: m) auto
  from this[OF small pos] show ?case by simp
next
  case (3 str_lower ref refs out keywordfilter)
  have "m \<le> fold max ns m" for ns and m :: nat
  proof (induction ns arbitrary: m)
    case Nil
    show ?case by simp
  next
    case (Cons n ns)
    have "m \<le> max n m" by simp
    also have "\<dots> \<le> fold max ns (max n m)" by (rule Cons.IH)
    finally show ?case by simp
  qed
  then have "size ref \<le> fold max (map size refs) (size ref)" .
  then show ?case by auto
next
  case (4 str_lower ref refs out keywordfilter x out')
  have "fold max ns m \<le> fold max ns m'" if "m \<le> m'" for ns and m m' :: nat
    using that by (induction ns arbitrary: m m') auto
  then have "fold max (map size refs) 0 \<le> fold max (map size refs) (size ref)"
    by simp
  then show ?case by auto
qed


section \<open>Auxiliary facts\<close>

lemma then_do_Inr [simp]: "then_do (Inr x) f = f x"
  by (simp add: then_do_def)

lemma then_do_Inl [simp]: "then_do (Inl e) f = Inl e"
  by (simp add: then_do_def)

text \<open>\<open>ascii_lower\<close> leaves none of the letters A to Z; neither does \<^verbatim>\<open>str.lower\<close>. A
  string with such a letter is no substring of a lower-cased one.\<close>

lemma ascii_lower_no_upper: "\<forall>c\<in>set (ascii_lower s). \<not> is_upper c"
proof
  fix c assume "c \<in> set (ascii_lower s)"
  then obtain d where c: "c = lower_char d"
    by (auto simp: ascii_lower_def)
  have "\<not> is_upper (lower_char d)"
  proof (cases "is_upper d")
    case True
    then have "(of_char (char_of (of_char d + 32 :: nat)) :: nat) = of_char d + 32"
      by (simp add: is_upper_def)
    with True show ?thesis by (simp add: lower_char_def is_upper_def)
  next
    case False
    then show ?thesis by (simp add: lower_char_def)
  qed
  with c show "\<not> is_upper c" by simp
qed

lemma upper_not_in_lower:
  assumes "\<forall>s. \<forall>c\<in>set (str_lower s). \<not> is_upper c" and "\<exists>c\<in>set term. is_upper c"
  shows "\<not> sublist term (str_lower text)"
proof
  assume "sublist term (str_lower text)"
  then have "set term \<subseteq> set (str_lower text)" by (rule set_mono_sublist)
  with assms(2) obtain c where "is_upper c" "c \<in> set (str_lower text)" by auto
  with assms(1) show False by blast
qed

section \<open>The author check (C6)\<close>

text \<open>
  C6 as stated fails. \<^verbatim>\<open>check_author\<close> removes the spaces from each keyword, not from
  the screen name: for the author \<^verbatim>\<open>"jane doe"\<close>, the keyword \<^verbatim>\<open>"janedoe"\<close>, the author
  check alone and \<^verbatim>\<open>do_filter\<close> true, \<^verbatim>\<open>decide_write\<close> returns \<^verbatim>\<open>False\<close>.
\<close>

theorem check_author_counterexample:
  "KeywordFilter_init (Some [''janedoe'']) (Some ''contains_keyword'') True (Some [''author'']) =
     Inr \<lparr>self_keywords = Some [''janedoe''], self_flag = Some ''contains_keyword'',
          self_do_filter = True, self_filters = [Author]\<rparr> \<and>
   decide_write ascii_lower \<lparr>self_keywords = Some [''janedoe''], self_flag = Some ''contains_keyword'',
          self_do_filter = True, self_filters = [Author]\<rparr>
     (JObj [(''user'', JObj [(''screen_name'', JStr ''jane doe'')])]) = Inr False"
  by (simp add: KeywordFilter_init_def FILTERS_def decide_write_def check_tweet_def
      check_author_def any_keyword_def replace_spaces_def)

text \<open>
  C6, amended: with only the author check enabled and \<^verbatim>\<open>do_filter\<close> true, \<^verbatim>\<open>check_author\<close>
  and \<^verbatim>\<open>decide_write\<close> return true iff the screen name, taken unchanged, equals some
  keyword with its spaces removed (exactly, case-sensitively). So the screen name
  \<^verbatim>\<open>"janedoe"\<close> is retained for the keyword \<^verbatim>\<open>"jane doe"\<close>.
\<close>

theorem check_author_strips_keywords:
  assumes "py_getitem tweet ''user'' = Inr user"
    and "py_getitem user ''screen_name'' = Inr author"
    and "KeywordFilter_init (Some kws) flg True (Some [''author'']) = Inr self"
  shows "check_author self tweet = Inr (author \<in> set (map (\<lambda>term. JStr (replace_spaces term)) kws)) \<and>
         decide_write str_lower self tweet =
           Inr (author \<in> set (map (\<lambda>term. JStr (replace_spaces term)) kws))"
proof -
  have self: "self_keywords self = Some kws" "self_filters self = [Author]"
    "self_do_filter self"
    using assms(3) by (auto simp: KeywordFilter_init_def FILTERS_def)
  have "check_author self tweet =
          Inr (author \<in> set (map (\<lambda>term. JStr (replace_spaces term)) kws))"
    using assms(1,2) self(1)
    by (auto simp: check_author_def any_keyword_def list_ex_iff)
  then show ?thesis
    using self by (simp add: decide_write_def check_tweet_def)
qed

theorem check_author_strips_keywords_witness:
  "py_getitem (JObj [(''user'', JObj [(''screen_name'', JStr ''janedoe'')])]) ''user'' =
     Inr (JObj [(''screen_name'', JStr ''janedoe'')]) \<and>
   py_getitem (JObj [(''screen_name'', JStr ''janedoe'')]) ''screen_name'' = Inr (JStr ''janedoe'') \<and>
   KeywordFilter_init (Some [''jane doe'']) (Some ''contains_keyword'') True (Some [''author'']) =
     Inr \<lparr>self_keywords = Some [''jane doe''], self_flag = Some ''contains_keyword'',
          self_do_filter = True, self_filters = [Author]\<rparr> \<and>
   decide_write ascii_lower \<lparr>self_keywords = Some [''jane doe''], self_flag = Some ''contains_keyword'',
          self_do_filter = True, self_filters = [Author]\<rparr>
     (JObj [(''user'', JObj [(''screen_name'', JStr ''janedoe'')])]) = Inr True"
  using check_author_strips_keywords
    [of "JObj [(''user'', JObj [(''screen_name'', JStr ''janedoe'')])]"
        "JObj [(''screen_name'', JStr ''janedoe'')]" "JStr ''janedoe''" "[''jane doe'']"
        "Some ''contains_keyword''"
        "\<lparr>self_keywords = Some [''jane doe''], self_flag = Some ''contains_keyword'',
          self_do_filter = True, self_filters = [Author]\<rparr>" ascii_lower]
  by (simp add: KeywordFilter_init_def FILTERS_def replace_spaces_def)

section \<open>Unknown field names (C8)\<close>

text \<open>
  C8 as stated fails. \<^verbatim>\<open>KeywordFilter.__init__\<close> does not reject a field list that holds
  a name outside author, text, entities: for \<^verbatim>\<open>["text", "bogus"]\<close> it returns a filter
  that runs the text check.
\<close>

theorem KeywordFilter_init_counterexample:
  "KeywordFilter_init (Some [''x'']) (Some ''contains_keyword'') True (Some [''text'', ''bogus'']) =
     Inr \<lparr>self_keywords = Some [''x''], self_flag = Some ''contains_keyword'',
          self_do_filter = True, self_filters = [Text]\<rparr>"
  by (simp add: KeywordFilter_init_def FILTERS_def)

text \<open>
  C8, amended: the constructor never raises. For a non-empty field list the enabled
  checks are those of author, text, entities that the list names, in the order of
  \<open>FILTERS\<close>; a name outside the three enables nothing and is not reported. Without a
  field list, or with an empty one, all three checks are enabled.
\<close>

theorem KeywordFilter_init_ignores_unknown:
  "\<exists>self. KeywordFilter_init kws flg dof flts = Inr self \<and>
     (\<forall>fs. flts = Some fs \<and> fs \<noteq> [] \<longrightarrow>
        self_filters self =
          filter (\<lambda>c. \<exists>n\<in>set fs. (n, c) \<in> set FILTERS) [Author, Text, Entities]) \<and>
     (flts = None \<or> flts = Some [] \<longrightarrow> self_filters self = [Author, Text, Entities])"
  by (auto simp: KeywordFilter_init_def FILTERS_def split: list.splits option.splits)

theorem KeywordFilter_init_ignores_unknown_witness:
  "KeywordFilter_init (Some [''x'']) None True (Some [''bogus'', ''text'']) =
     Inr \<lparr>self_keywords = Some [''x''], self_flag = None,
          self_do_filter = True, self_filters = [Text]\<rparr> \<and>
   KeywordFilter_init (Some [''x'']) None True (Some [''bogus'']) =
     Inr \<lparr>self_keywords = Some [''x''], self_flag = None,
          self_do_filter = True, self_filters = []\<rparr>"
  using KeywordFilter_init_ignores_unknown
    [of "Some [''x'']" None True "Some [''bogus'', ''text'']"]
    KeywordFilter_init_ignores_unknown
    [of "Some [''x'']" None True "Some [''bogus'']"]
  by (simp add: KeywordFilter_init_def FILTERS_def)

section \<open>The text check (C5)\<close>

text \<open>
  C5 as stated fails. \<^verbatim>\<open>check_text\<close> lower-cases the text and leaves the keywords as
  they are: the keyword \<^verbatim>\<open>"AI"\<close> does not match the text \<^verbatim>\<open>"ai now"\<close>.
\<close>

theorem check_text_counterexample:
  "check_text ascii_lower
     \<lparr>self_keywords = Some [''AI''], self_flag = Some ''contains_keyword'',
      self_do_filter = True, self_filters = [Text]\<rparr>
     (JObj [(''truncated'', JBool False), (''text'', JStr ''ai now'')]) = Inr False"
  by (simp add: check_text_def any_keyword_def ascii_lower_def lower_char_def is_upper_def
      sublist_code)

text \<open>
  C5, amended: when \<^verbatim>\<open>tweet['truncated']\<close> is there and the effective text (the extended
  full text when \<^verbatim>\<open>tweet['truncated']\<close> is truthy, else the primary text) is a string,
  \<^verbatim>\<open>check_text\<close> returns true iff some keyword, as written, is a substring of the
  lower-cased effective text, whatever \<^verbatim>\<open>str.lower\<close> does to it. Since lower-casing
  leaves none of the letters A to Z, a keyword with such a letter never matches.
\<close>

theorem check_text_keywords_as_written:
  assumes "py_getitem tweet ''truncated'' = Inr truncated"
    and "if truthy truncated
         then \<exists>extended. py_getitem tweet ''extended_tweet'' = Inr extended \<and>
                py_getitem extended ''full_text'' = Inr (JStr text)
         else py_getitem tweet ''text'' = Inr (JStr text)"
    and "self_keywords self = Some kws"
  shows "check_text str_lower self tweet =
           Inr (\<exists>term\<in>set kws. sublist term (str_lower text)) \<and>
         ((\<forall>s. \<forall>c\<in>set (str_lower s). \<not> is_upper c) \<longrightarrow>
          (\<forall>term\<in>set kws. (\<exists>c\<in>set term. is_upper c) \<longrightarrow>
             \<not> sublist term (str_lower text)))"
proof -
  have "check_text str_lower self tweet =
          Inr (\<exists>term\<in>set kws. sublist term (str_lower text))"
    using assms by (auto simp: check_text_def any_keyword_def list_ex_iff split: if_splits)
  then show ?thesis
    using upper_not_in_lower[of str_lower] by blast
qed

theorem check_text_keywords_as_written_witness:
  "check_text ascii_lower
     \<lparr>self_keywords = Some [''Full'', ''longtag''], self_flag = None,
      self_do_filter = True, self_filters = [Text]\<rparr>
     (JObj [(''truncated'', JBool True), (''text'', JStr ''short''),
            (''extended_tweet'', JObj [(''full_text'', JStr ''the Full text #LongTag'')])]) =
     Inr True \<and>
   is_upper CHR ''F'' \<and> \<not> sublist ''Full'' (ascii_lower ''the Full text #LongTag'')"
proof -
  have low: "ascii_lower ''the Full text #LongTag'' = ''the full text #longtag''"
    by code_simp
  have up: "is_upper CHR ''F''"
    by (simp add: is_upper_def)
  have no_upper: "\<forall>s. \<forall>c\<in>set (ascii_lower s). \<not> is_upper c"
    using ascii_lower_no_upper by blast
  show ?thesis
    using check_text_keywords_as_written
      [of "JObj [(''truncated'', JBool True), (''text'', JStr ''short''),
                 (''extended_tweet'', JObj [(''full_text'', JStr ''the Full text #LongTag'')])]"
          "JBool True" "''the Full text #LongTag''"
          "\<lparr>self_keywords = Some [''Full'', ''longtag''], self_flag = None,
            self_do_filter = True, self_filters = [Text]\<rparr>"
          "[''Full'', ''longtag'']" ascii_lower] no_upper
    by (simp add: low up sublist_code)
qed

section \<open>The retention decision (C2)\<close>

text \<open>A comprehension all of whose bodies return collects exactly their results.\<close>

lemma map_raise_results:
  assumes "\<forall>x\<in>set xs. \<exists>y. f x = Inr y"
  shows "\<exists>ys. map_raise f xs = Inr ys \<and> (\<forall>y. y \<in> set ys \<longleftrightarrow> (\<exists>x\<in>set xs. f x = Inr y))"
  using assms
proof (induction xs)
  case Nil
  show ?case by simp
next
  case (Cons x xs)
  then obtain y ys where y: "f x = Inr y"
    and ys: "map_raise f xs = Inr ys" "\<forall>y. y \<in> set ys \<longleftrightarrow> (\<exists>x\<in>set xs. f x = Inr y)"
    by auto
  have "map_raise f (x # xs) = Inr (y # ys)"
    using y ys(1) by simp
  moreover have "\<forall>z. z \<in> set (y # ys) \<longleftrightarrow> (\<exists>x'\<in>set (x # xs). f x' = Inr z)"
    using y ys(2) by auto
  ultimately show ?case by blast
qed

text \<open>\<^verbatim>\<open>process_tweet\<close> only appends to the tweets file.\<close>

lemma written_so_far:
  "prefix (tweets_csv out) (tweets_csv (fst (process_tweet str_lower tweet out kf)))"
  "prefix (tweets_csv out) (tweets_csv (fst (process_refs str_lower refs out kf)))"
proof (induction str_lower tweet out kf and str_lower refs out kf
    rule: process_tweet_process_refs.induct)
  case (1 str_lower tweet out keywordfilter)
  show ?case
  proof (cases "write_decision str_lower keywordfilter tweet")
    case (Inl e)
    then show ?thesis by simp
  next
    case (Inr b)
    show ?thesis
    proof (cases "b")
      case False
      with Inr show ?thesis by simp
    next
      case True
      show ?thesis
      proof (cases "flat_records str_lower tweet keywordfilter")
        case (Inl e)
        with Inr True show ?thesis by simp
      next
        case (Inr x)
        obtain r u refs where x: "x = (r, u, refs)" by (cases x)
        let ?out = "write_record_to_file u
              (write_record_to_file r out False (keyword_flag_of keywordfilter))
              True (keyword_flag_of keywordfilter)"
        have "prefix (tweets_csv ?out) (tweets_csv (fst (process_refs str_lower refs ?out keywordfilter)))"
          using "1.IH" \<open>write_decision str_lower keywordfilter tweet = Inr b\<close> True Inr x by simp
        moreover have "prefix (tweets_csv out) (tweets_csv ?out)"
          by (simp add: write_record_to_file_def)
        ultimately have "prefix (tweets_csv out) (tweets_csv (fst (process_refs str_lower refs ?out keywordfilter)))"
          by (rule prefix_order.trans[rotated])
        then show ?thesis
          using \<open>write_decision str_lower keywordfilter tweet = Inr b\<close> True Inr x by simp
      qed
    qed
  qed
next
  case (2 str_lower out keywordfilter)
  show ?case by simp
next
  case (3 str_lower ref refs out keywordfilter)
  obtain out' e where p: "process_tweet str_lower ref out keywordfilter = (out', e)"
    by (cases "process_tweet str_lower ref out keywordfilter")
  have a: "prefix (tweets_csv out) (tweets_csv out')"
    using "3.IH"(1) p by simp
  show ?case
  proof (cases e)
    case None
    then have "prefix (tweets_csv out') (tweets_csv (fst (process_refs str_lower refs out' keywordfilter)))"
      using "3.IH"(2) p by simp
    with a have "prefix (tweets_csv out) (tweets_csv (fst (process_refs str_lower refs out' keywordfilter)))"
      by (rule prefix_order.trans)
    then show ?thesis using p None by simp
  next
    case (Some err)
    then show ?thesis using p a by simp
  qed
qed


text \<open>
  C2 as stated fails. \<^verbatim>\<open>decide_write\<close> runs \<^verbatim>\<open>check_tweet\<close> before it looks at
  \<^verbatim>\<open>do_filter\<close>, so a tweet on which an enabled check raises is not retained even with
  \<^verbatim>\<open>do_filter\<close> false: for a tweet without \<^verbatim>\<open>truncated\<close> the decision is a \<^verbatim>\<open>KeyError\<close> and
  \<^verbatim>\<open>process_tweet\<close> writes nothing.
\<close>

theorem decide_write_counterexample:
  "decide_write ascii_lower \<lparr>self_keywords = Some [''x''], self_flag = Some ''contains_keyword'',
                  self_do_filter = False, self_filters = [Author, Text, Entities]\<rparr>
     (JObj [(''user'', JObj [(''screen_name'', JStr ''a'')]), (''text'', JStr ''hi'')]) =
     Inl (KeyError ''truncated'') \<and>
   process_tweet ascii_lower
     (JObj [(''user'', JObj [(''screen_name'', JStr ''a'')]), (''text'', JStr ''hi'')])
     \<lparr>tweets_csv = [], users_csv = []\<rparr>
     (Some \<lparr>self_keywords = Some [''x''], self_flag = Some ''contains_keyword'',
             self_do_filter = False, self_filters = [Author, Text, Entities]\<rparr>) =
     (\<lparr>tweets_csv = [], users_csv = []\<rparr>, Some (KeyError ''truncated''))"
  by (simp add: write_decision_def decide_write_def check_tweet_def check_author_def
      check_text_def any_keyword_def replace_spaces_def)

text \<open>
  C2, amended: for every tweet on which each enabled check returns, the decision is:
  no filter configured, retain; \<^verbatim>\<open>do_filter\<close> false, retain whatever the checks say;
  \<^verbatim>\<open>do_filter\<close> true and no enabled check true, drop (unless \<^verbatim>\<open>keywords\<close> is \<^verbatim>\<open>None\<close>);
  \<^verbatim>\<open>do_filter\<close> true and some enabled check true, retain. A dropped tweet leaves the
  files as they were and is not looked into further; a retained one that flattens has
  its row appended to the tweets file.
\<close>

theorem decide_write_table:
  assumes "\<forall>c\<in>set (self_filters self). \<exists>b. run_check str_lower c self tweet = Inr b"
  shows "write_decision str_lower None tweet = Inr True \<and>
         write_decision str_lower (Some self) tweet = decide_write str_lower self tweet \<and>
         decide_write str_lower self tweet =
           Inr (self_keywords self = None \<or> \<not> self_do_filter self \<or>
                (\<exists>c\<in>set (self_filters self). run_check str_lower c self tweet = Inr True)) \<and>
         (\<forall>out kf. write_decision str_lower kf tweet = Inr False \<longrightarrow>
            process_tweet str_lower tweet out kf = (out, None)) \<and>
         (\<forall>out kf r u refs. write_decision str_lower kf tweet = Inr True \<and>
            flat_records str_lower tweet kf = Inr (r, u, refs) \<longrightarrow>
            prefix (tweets_csv (write_record_to_file r out False (keyword_flag_of kf)))
              (tweets_csv (fst (process_tweet str_lower tweet out kf))))"
proof -
  obtain bs where bs: "map_raise (\<lambda>field. run_check str_lower field self tweet) (self_filters self) = Inr bs"
    and mem: "\<forall>b. b \<in> set bs \<longleftrightarrow> (\<exists>c\<in>set (self_filters self). run_check str_lower c self tweet = Inr b)"
    using map_raise_results[OF assms] by blast
  have "check_tweet str_lower self tweet =
          Inr (\<exists>c\<in>set (self_filters self). run_check str_lower c self tweet = Inr True)"
    using bs mem by (auto simp: check_tweet_def list_ex_iff)
  then have d: "decide_write str_lower self tweet =
           Inr (self_keywords self = None \<or> \<not> self_do_filter self \<or>
                (\<exists>c\<in>set (self_filters self). run_check str_lower c self tweet = Inr True))"
    by (auto simp: decide_write_def)
  have w: "prefix (tweets_csv (write_record_to_file r out False (keyword_flag_of kf)))
              (tweets_csv (fst (process_tweet str_lower tweet out kf)))"
    if "write_decision str_lower kf tweet = Inr True" "flat_records str_lower tweet kf = Inr (r, u, refs)"
    for out kf r u refs
  proof -
    let ?out = "write_record_to_file u
              (write_record_to_file r out False (keyword_flag_of kf)) True (keyword_flag_of kf)"
    have "prefix (tweets_csv ?out) (tweets_csv (fst (process_refs str_lower refs ?out kf)))"
      by (rule written_so_far)
    moreover have "tweets_csv ?out =
        tweets_csv (write_record_to_file r out False (keyword_flag_of kf))"
      by (simp add: write_record_to_file_def)
    ultimately show ?thesis using that by simp
  qed
  show ?thesis
    using d w by (simp add: write_decision_def)
qed

theorem decide_write_table_witness:
  "run_check ascii_lower Author
       \<lparr>self_keywords = Some [''cat''], self_flag = None, self_do_filter = True,
        self_filters = [Author, Text]\<rparr>
       (JObj [(''user'', JObj [(''screen_name'', JStr ''a'')]), (''truncated'', JBool False),
              (''text'', JStr ''dog'')]) = Inr False \<and>
   run_check ascii_lower Text
       \<lparr>self_keywords = Some [''cat''], self_flag = None, self_do_filter = True,
        self_filters = [Author, Text]\<rparr>
       (JObj [(''user'', JObj [(''screen_name'', JStr ''a'')]), (''truncated'', JBool False),
              (''text'', JStr ''dog'')]) = Inr False \<and>
   decide_write ascii_lower
       \<lparr>self_keywords = Some [''cat''], self_flag = None, self_do_filter = True,
        self_filters = [Author, Text]\<rparr>
       (JObj [(''user'', JObj [(''screen_name'', JStr ''a'')]), (''truncated'', JBool False),
              (''text'', JStr ''dog'')]) = Inr False \<and>
   process_tweet ascii_lower
       (JObj [(''user'', JObj [(''screen_name'', JStr ''a'')]), (''truncated'', JBool False),
              (''text'', JStr ''dog'')])
       \<lparr>tweets_csv = [], users_csv = []\<rparr>
       (Some \<lparr>self_keywords = Some [''cat''], self_flag = None, self_do_filter = True,
              self_filters = [Author, Text]\<rparr>) = (\<lparr>tweets_csv = [], users_csv = []\<rparr>, None)"
proof -
  have low: "ascii_lower ''dog'' = ''dog''"
    by code_simp
  have checks: "check_author
       \<lparr>self_keywords = Some [''cat''], self_flag = None, self_do_filter = True,
        self_filters = [Author, Text]\<rparr>
       (JObj [(''user'', JObj [(''screen_name'', JStr ''a'')]), (''truncated'', JBool False),
              (''text'', JStr ''dog'')]) = Inr False"
    "check_text ascii_lower
       \<lparr>self_keywords = Some [''cat''], self_flag = None, self_do_filter = True,
        self_filters = [Author, Text]\<rparr>
       (JObj [(''user'', JObj [(''screen_name'', JStr ''a'')]), (''truncated'', JBool False),
              (''text'', JStr ''dog'')]) = Inr False"
    by (simp_all add: check_author_def check_text_def any_keyword_def replace_spaces_def low
        sublist_code)
  let ?K = "\<lparr>self_keywords = Some [''cat''], self_flag = None, self_do_filter = True,
        self_filters = [Author, Text]\<rparr>"
  let ?T = "JObj [(''user'', JObj [(''screen_name'', JStr ''a'')]), (''truncated'', JBool False),
              (''text'', JStr ''dog'')]"
  have hyp0: "\<forall>c\<in>set [Author, Text]. \<exists>b. run_check ascii_lower c ?K ?T = Inr b"
    by (auto simp: checks)
  then have hyp: "\<forall>c\<in>set (self_filters ?K). \<exists>b. run_check ascii_lower c ?K ?T = Inr b"
    by simp
  note table = decide_write_table[OF hyp]
  have d: "decide_write ascii_lower ?K ?T = Inr False"
    using table checks by simp
  then have "write_decision ascii_lower (Some ?K) ?T = Inr False"
    using table by simp
  then have "process_tweet ascii_lower ?T \<lparr>tweets_csv = [], users_csv = []\<rparr> (Some ?K) =
      (\<lparr>tweets_csv = [], users_csv = []\<rparr>, None)"
    using table by blast
  with checks d show ?thesis
    by simp
qed

section \<open>Missing extended container and missing user (C4)\<close>

text \<open>
  C4 fails on the code. \<^verbatim>\<open>record_tweet\<close> calls \<^verbatim>\<open>extended.get\<close> on the \<^verbatim>\<open>None\<close> it gets for a
  truncated tweet without \<^verbatim>\<open>extended_tweet\<close>, and \<^verbatim>\<open>record_user\<close> calls \<^verbatim>\<open>user.get\<close> on the
  \<^verbatim>\<open>None\<close> it gets for a tweet without \<^verbatim>\<open>user\<close>: both raise \<^verbatim>\<open>AttributeError\<close>.
\<close>

theorem record_tweet_record_user_raise:
  "record_tweet (JObj [(''id_str'', JStr ''1''), (''text'', JStr ''short''),
                       (''truncated'', JBool True),
                       (''user'', JObj [(''id_str'', JStr ''9'')])]) = Inl AttributeError \<and>
   record_user (JObj [(''id_str'', JStr ''1''), (''text'', JStr ''hi''),
                      (''truncated'', JBool False)]) = Inl AttributeError"
  by code_simp

section \<open>Entity extraction (C3)\<close>

lemma keys_dict_set:
  "map fst (dict_set d k v) = (if k \<in> set (map fst d) then map fst d else map fst d @ [k])"
  by (induction d) auto

lemma map_of_dict_set: "map_of (dict_set d k v) = (map_of d)(k \<mapsto> v)"
  by (induction d) (auto simp: fun_eq_iff)

lemma entity_record0:
  "dict_fromkeys ENTITY_FIELDS [] =
     [(''urls'', []), (''user_id_mentions'', []), (''user_screenname_mentions'', []),
      (''symbols'', []), (''hashtags'', []), (''media'', [])]"
  by (simp add: dict_fromkeys_def ENTITY_FIELDS_def)

lemma parse_entity_details_kinds:
  "parse_entity_details (JObj kvs) =
     then_do (py_get (JObj kvs) ''urls'') (\<lambda>urls.
     then_do (kind_links ''expanded_url'' urls) (\<lambda>url_links.
     then_do (py_get (JObj kvs) ''media'') (\<lambda>media.
     then_do (kind_links ''media_url'' media) (\<lambda>media_links.
     then_do (py_get (JObj kvs) ''hashtags'') (\<lambda>hashtags.
     then_do (kind_links ''text'' hashtags) (\<lambda>hs.
     then_do (py_get (JObj kvs) ''user_mentions'') (\<lambda>mentions.
     then_do (kind_links ''id_str'' mentions) (\<lambda>ids.
     then_do (kind_links ''screen_name'' mentions) (\<lambda>names.
     then_do (py_get (JObj kvs) ''symbols'') (\<lambda>symbols.
     then_do (kind_links ''text'' symbols) (\<lambda>ss.
     Inr [(''urls'', url_links), (''user_id_mentions'', ids),
          (''user_screenname_mentions'', names), (''symbols'', ss), (''hashtags'', hs),
          (''media'', media_links)])))))))))))"
  by (simp add: parse_entity_details_def entity_record0 kind_links_def then_do_def
      split: sum.splits)


lemma map_raise_members:
  assumes "list_all (has_member key) items"
  shows "map_raise (\<lambda>u. py_getitem u key) items = Inr (map (spec_item_value key) items)"
  using assms
proof (induction items)
  case Nil
  show ?case by simp
next
  case (Cons item items)
  then obtain obj v where "item = JObj obj" "map_of obj key = Some v"
    by (cases item) auto
  with Cons show ?case by simp
qed

lemma kind_links_well_formed:
  assumes "py_get entities kind = Inr v" and "well_formed_kind entities kind keys"
    and "key \<in> set keys"
  shows "kind_links key v = Inr (spec_level_values entities kind key)"
proof (cases v)
  case JNull
  with assms(1) show ?thesis
    by (simp add: kind_links_def nonempty_def spec_level_values_def)
next
  case (JArr items)
  have "list_all (has_member key) items"
    using assms JArr by (auto simp: well_formed_kind_def list_all_iff)
  then have "map_raise (\<lambda>u. py_getitem u key) items = Inr (map (spec_item_value key) items)"
    by (rule map_raise_members)
  with assms(1) JArr show ?thesis
    by (simp add: kind_links_def nonempty_def pluck_def spec_level_values_def)
qed (use assms in \<open>simp_all add: well_formed_kind_def\<close>)

lemma parse_entity_details_None:
  "parse_entity_details JNull = Inr (entity_record [] [] [] [] [] [])"
  by (simp add: parse_entity_details_def entity_record0 entity_record_def)

lemma spec_level_values_None [simp]: "spec_level_values JNull kind key = []"
  by (simp add: spec_level_values_def)

lemma parse_entity_details_well_formed:
  assumes "well_formed_entities entities"
  shows "parse_entity_details entities =
     Inr (entity_record
       (spec_level_values entities ''urls'' ''expanded_url'')
       (spec_level_values entities ''user_mentions'' ''id_str'')
       (spec_level_values entities ''user_mentions'' ''screen_name'')
       (spec_level_values entities ''symbols'' ''text'')
       (spec_level_values entities ''hashtags'' ''text'')
       (spec_level_values entities ''media'' ''media_url''))"
proof (cases "entities = JNull")
  case True
  then show ?thesis by (simp add: parse_entity_details_None)
next
  case False
  with assms have wf:
    "well_formed_kind entities ''urls'' [''expanded_url'']"
    "well_formed_kind entities ''media'' [''media_url'']"
    "well_formed_kind entities ''hashtags'' [''text'']"
    "well_formed_kind entities ''user_mentions'' [''id_str'', ''screen_name'']"
    "well_formed_kind entities ''symbols'' [''text'']"
    by (simp_all add: well_formed_entities_def)
  then obtain kvs where kvs: "entities = JObj kvs"
    by (cases entities) (simp_all add: well_formed_kind_def)
  have links: "kind_links key (case map_of kvs kind of None \<Rightarrow> JNull | Some v \<Rightarrow> v) =
      Inr (spec_level_values entities kind key)"
    if "well_formed_kind entities kind keys" "key \<in> set keys" for kind keys key
    using kind_links_well_formed[OF _ that] kvs by simp
  show ?thesis
    unfolding kvs parse_entity_details_kinds
    by (simp add: links[OF wf(1), unfolded kvs] links[OF wf(2), unfolded kvs]
        links[OF wf(3), unfolded kvs] links[OF wf(4), unfolded kvs]
        links[OF wf(5), unfolded kvs] entity_record_def)
qed

lemma extend_fields_entity_record:
  "extend_fields (entity_record a1 a2 a3 a4 a5 a6) (entity_record b1 b2 b3 b4 b5 b6) =
     Inr (entity_record (a1 @ b1) (a2 @ b2) (a3 @ b3) (a4 @ b4) (a5 @ b5) (a6 @ b6))"
  by (simp add: extend_fields_def entity_record_def ENTITY_FIELDS_def dict_getitem_def)


lemma parse_entity_details_shape:
  assumes "parse_entity_details entities = Inr r"
  shows "\<exists>urls ids names symbols hashtags media.
           r = entity_record urls ids names symbols hashtags media"
proof (cases entities)
  case JNull
  with assms have "r = entity_record [] [] [] [] [] []"
    by (simp add: parse_entity_details_None)
  then show ?thesis by blast
next
  case (JObj kvs)
  with assms have "parse_entity_details (JObj kvs) = Inr r"
    by simp
  then show ?thesis
    by (auto simp: parse_entity_details_kinds then_do_def entity_record_def split: sum.splits)
qed (use assms in \<open>simp_all add: parse_entity_details_def\<close>)

lemma extract_entities_shape:
  assumes "extract_entities tweet = Inr r"
  shows "\<exists>urls ids names symbols hashtags media.
           r = entity_record urls ids names symbols hashtags media"
proof -
  have ext: "\<exists>urls ids names symbols hashtags media.
           r' = entity_record urls ids names symbols hashtags media"
    if "then_do (parse_entity_details e) (extend_fields (entity_record a1 a2 a3 a4 a5 a6)) = Inr r'"
    for e a1 a2 a3 a4 a5 a6 r'
  proof (cases "parse_entity_details e")
    case (Inl err)
    with that show ?thesis by simp
  next
    case (Inr p)
    then obtain b1 b2 b3 b4 b5 b6 where "p = entity_record b1 b2 b3 b4 b5 b6"
      using parse_entity_details_shape by blast
    with that Inr have "r' = entity_record (a1 @ b1) (a2 @ b2) (a3 @ b3) (a4 @ b4) (a5 @ b5)
        (a6 @ b6)"
      by (simp add: extend_fields_entity_record)
    then show ?thesis by blast
  qed
  obtain entities p where e: "py_get tweet ''entities'' = Inr entities"
    and p: "parse_entity_details entities = Inr p"
    using assms by (auto simp: extract_entities_def then_do_def split: sum.splits)
  obtain a1 a2 a3 a4 a5 a6 where p1: "p = entity_record a1 a2 a3 a4 a5 a6"
    using parse_entity_details_shape[OF p] by blast
  obtain truncated where t: "py_get tweet ''truncated'' = Inr truncated"
    using assms e p by (auto simp: extract_entities_def then_do_def split: sum.splits)
  show ?thesis
  proof (cases "truncated = JBool True")
    case False
    with assms e p t p1 have "r = entity_record a1 a2 a3 a4 a5 a6"
      by (simp add: extract_entities_def)
    then show ?thesis by blast
  next
    case True
    obtain extended entities2 where x: "py_get tweet ''extended_tweet'' = Inr extended"
      "py_get extended ''entities'' = Inr entities2"
      using assms e p t True by (auto simp: extract_entities_def then_do_def split: sum.splits)
    obtain p2 where p2: "(if entities2 \<noteq> JNull
                then then_do (parse_entity_details entities2) (extend_fields p)
                else Inr p) = Inr p2"
      using assms e p t True x
      by (auto simp: extract_entities_def then_do_def split: sum.splits if_splits)
    then have "\<exists>c1 c2 c3 c4 c5 c6. p2 = entity_record c1 c2 c3 c4 c5 c6"
      using ext[of entities2 a1 a2 a3 a4 a5 a6 p2] p1
      by (cases "entities2 = JNull") (simp, blast, simp)
    then obtain c1 c2 c3 c4 c5 c6 where c: "p2 = entity_record c1 c2 c3 c4 c5 c6"
      by blast
    obtain ext_entities where x3: "py_get extended ''extended_entities'' = Inr ext_entities"
      using assms e p t True x p2 by (auto simp: extract_entities_def then_do_def split: sum.splits)
    have "(if ext_entities \<noteq> JNull
       then then_do (parse_entity_details ext_entities) (extend_fields p2)
       else Inr p2) = Inr r"
      using assms e p t True x p2 x3 by (simp add: extract_entities_def)
    then show ?thesis
      using ext[of ext_entities c1 c2 c3 c4 c5 c6 r] c
      by (cases "ext_entities = JNull") (simp, blast, simp)
  qed
qed

text \<open>
  C3: for a tweet whose \<^verbatim>\<open>truncated\<close> is exactly \<^verbatim>\<open>True\<close>, with well-formed entities at the
  base level, under \<^verbatim>\<open>extended_tweet.entities\<close> and under
  \<^verbatim>\<open>extended_tweet.extended_entities\<close>, every entity field of \<^verbatim>\<open>extract_entities\<close> is the
  base-level sequence, then the extended one, then the extended-extended one, each in
  its own order and with nothing removed. A kind absent at a level contributes the
  empty sequence there.
\<close>

theorem extract_entities_merge_order:
  assumes "py_get tweet ''truncated'' = Inr (JBool True)"
    and "py_get tweet ''entities'' = Inr e1"
    and "py_get tweet ''extended_tweet'' = Inr extended"
    and "py_get extended ''entities'' = Inr e2"
    and "py_get extended ''extended_entities'' = Inr e3"
    and "well_formed_entities e1" and "well_formed_entities e2" and "well_formed_entities e3"
  shows "extract_entities tweet =
     Inr (entity_record
       (spec_level_values e1 ''urls'' ''expanded_url'' @
          spec_level_values e2 ''urls'' ''expanded_url'' @
          spec_level_values e3 ''urls'' ''expanded_url'')
       (spec_level_values e1 ''user_mentions'' ''id_str'' @
          spec_level_values e2 ''user_mentions'' ''id_str'' @
          spec_level_values e3 ''user_mentions'' ''id_str'')
       (spec_level_values e1 ''user_mentions'' ''screen_name'' @
          spec_level_values e2 ''user_mentions'' ''screen_name'' @
          spec_level_values e3 ''user_mentions'' ''screen_name'')
       (spec_level_values e1 ''symbols'' ''text'' @
          spec_level_values e2 ''symbols'' ''text'' @
          spec_level_values e3 ''symbols'' ''text'')
       (spec_level_values e1 ''hashtags'' ''text'' @
          spec_level_values e2 ''hashtags'' ''text'' @
          spec_level_values e3 ''hashtags'' ''text'')
       (spec_level_values e1 ''media'' ''media_url'' @
          spec_level_values e2 ''media'' ''media_url'' @
          spec_level_values e3 ''media'' ''media_url'')) \<and>
     (\<forall>e kind key. py_get e kind = Inr JNull \<longrightarrow> spec_level_values e kind key = [])"
proof -
  note p = parse_entity_details_well_formed
  have "extract_entities tweet = Inr (entity_record
       (spec_level_values e1 ''urls'' ''expanded_url'' @
          spec_level_values e2 ''urls'' ''expanded_url'' @
          spec_level_values e3 ''urls'' ''expanded_url'')
       (spec_level_values e1 ''user_mentions'' ''id_str'' @
          spec_level_values e2 ''user_mentions'' ''id_str'' @
          spec_level_values e3 ''user_mentions'' ''id_str'')
       (spec_level_values e1 ''user_mentions'' ''screen_name'' @
          spec_level_values e2 ''user_mentions'' ''screen_name'' @
          spec_level_values e3 ''user_mentions'' ''screen_name'')
       (spec_level_values e1 ''symbols'' ''text'' @
          spec_level_values e2 ''symbols'' ''text'' @
          spec_level_values e3 ''symbols'' ''text'')
       (spec_level_values e1 ''hashtags'' ''text'' @
          spec_level_values e2 ''hashtags'' ''text'' @
          spec_level_values e3 ''hashtags'' ''text'')
       (spec_level_values e1 ''media'' ''media_url'' @
          spec_level_values e2 ''media'' ''media_url'' @
          spec_level_values e3 ''media'' ''media_url''))"
    using assms(1-5)
    by (simp add: extract_entities_def p[OF assms(6)] p[OF assms(7)] p[OF assms(8)]
        extend_fields_entity_record)
  then show ?thesis
    by (simp add: spec_level_values_def)
qed

theorem extract_entities_merge_order_witness:
  "extract_entities
     (JObj [(''truncated'', JBool True),
            (''entities'', JObj [(''hashtags'', JArr [JObj [(''text'', JStr ''A'')],
                                                     JObj [(''text'', JStr ''b'')]]),
                                 (''urls'', JArr [JObj [(''expanded_url'', JStr ''u1'')]])]),
            (''extended_tweet'', JObj
               [(''full_text'', JStr ''x''),
                (''entities'', JObj [(''hashtags'', JArr [JObj [(''text'', JStr ''A'')]]),
                                     (''user_mentions'', JArr [JObj [(''id_str'', JStr ''7''),
                                                     (''screen_name'', JStr ''bob'')]])]),
                (''extended_entities'', JObj [(''media'', JArr [JObj [(''media_url'', JStr ''m1'')]]),
                                     (''hashtags'', JArr [JObj [(''text'', JStr ''A'')]])])])]) =
   Inr (entity_record [JStr ''u1''] [JStr ''7''] [JStr ''bob''] []
          [JStr ''A'', JStr ''b'', JStr ''A'', JStr ''A''] [JStr ''m1''])"
  using extract_entities_merge_order
    [of "JObj [(''truncated'', JBool True),
            (''entities'', JObj [(''hashtags'', JArr [JObj [(''text'', JStr ''A'')],
                                                     JObj [(''text'', JStr ''b'')]]),
                                 (''urls'', JArr [JObj [(''expanded_url'', JStr ''u1'')]])]),
            (''extended_tweet'', JObj
               [(''full_text'', JStr ''x''),
                (''entities'', JObj [(''hashtags'', JArr [JObj [(''text'', JStr ''A'')]]),
                                     (''user_mentions'', JArr [JObj [(''id_str'', JStr ''7''),
                                                     (''screen_name'', JStr ''bob'')]])]),
                (''extended_entities'', JObj [(''media'', JArr [JObj [(''media_url'', JStr ''m1'')]]),
                                     (''hashtags'', JArr [JObj [(''text'', JStr ''A'')]])])])]"
        "JObj [(''hashtags'', JArr [JObj [(''text'', JStr ''A'')], JObj [(''text'', JStr ''b'')]]),
               (''urls'', JArr [JObj [(''expanded_url'', JStr ''u1'')]])]"
        "JObj [(''full_text'', JStr ''x''),
                (''entities'', JObj [(''hashtags'', JArr [JObj [(''text'', JStr ''A'')]]),
                                     (''user_mentions'', JArr [JObj [(''id_str'', JStr ''7''),
                                                     (''screen_name'', JStr ''bob'')]])]),
                (''extended_entities'', JObj [(''media'', JArr [JObj [(''media_url'', JStr ''m1'')]]),
                                     (''hashtags'', JArr [JObj [(''text'', JStr ''A'')]])])]"
        "JObj [(''hashtags'', JArr [JObj [(''text'', JStr ''A'')]]),
               (''user_mentions'', JArr [JObj [(''id_str'', JStr ''7''),
                                               (''screen_name'', JStr ''bob'')]])]"
        "JObj [(''media'', JArr [JObj [(''media_url'', JStr ''m1'')]]),
               (''hashtags'', JArr [JObj [(''text'', JStr ''A'')]])]"]
  by (simp add: well_formed_entities_def well_formed_kind_def spec_level_values_def)

section \<open>The flattened record\<close>

text \<open>Building a dict over distinct keys lists them in order.\<close>

lemma dict_set_fresh: "k \<notin> set (map fst d) \<Longrightarrow> dict_set d k v = d @ [(k, v)]"
  by (induction d) auto

lemma fold_dict_set_fresh:
  "distinct ks \<Longrightarrow> set ks \<inter> set (map fst d) = {} \<Longrightarrow>
     fold (\<lambda>f d. dict_set d f v) ks d = d @ map (\<lambda>f. (f, v)) ks"
proof (induction ks arbitrary: d)
  case Nil
  show ?case by simp
next
  case (Cons k ks)
  then have "dict_set d k v = d @ [(k, v)]"
    by (simp add: dict_set_fresh)
  moreover have "set ks \<inter> set (map fst (d @ [(k, v)])) = {}"
    using Cons.prems by auto
  ultimately show ?case
    using Cons.IH[of "d @ [(k, v)]"] Cons.prems(1) by simp
qed

lemma dict_fromkeys_distinct:
  "distinct ks \<Longrightarrow> dict_fromkeys ks v = map (\<lambda>f. (f, v)) ks"
  using fold_dict_set_fresh[of ks "[]" v] by (simp add: dict_fromkeys_def)

text \<open>A loop \<^verbatim>\<open>for x in fs: d[x] = h(g(x))\<close> over keys that are already there keeps the keys,
  leaves the other entries alone and stores what \<open>g\<close> gave.\<close>

lemma setter_loop:
  assumes "fold_raise (\<lambda>x d. then_do (g x) (\<lambda>v. Inr (dict_set d x (h v)))) fs d = Inr d'"
    and "set fs \<subseteq> set (map fst d)"
  shows "map fst d' = map fst d \<and>
         (\<forall>k. k \<notin> set fs \<longrightarrow> map_of d' k = map_of d k) \<and>
         (\<forall>k\<in>set fs. \<exists>v. g k = Inr v \<and> map_of d' k = Some (h v))"
  using assms
proof (induction fs arbitrary: d)
  case Nil
  then show ?case by simp
next
  case (Cons f fs)
  obtain v where v: "g f = Inr v"
    using Cons.prems(1) by (cases "g f") simp_all
  let ?d1 = "dict_set d f (h v)"
  have loop: "fold_raise (\<lambda>x d. then_do (g x) (\<lambda>v. Inr (dict_set d x (h v)))) fs ?d1 = Inr d'"
    using Cons.prems(1) v by simp
  have keys1: "map fst ?d1 = map fst d"
    using Cons.prems(2) by (simp add: keys_dict_set)
  then have "set fs \<subseteq> set (map fst ?d1)"
    using Cons.prems(2) by simp
  note IH = Cons.IH[OF loop this]
  have "map_of d' f = Some (h v)"
  proof (cases "f \<in> set fs")
    case True
    with IH v show ?thesis by auto
  next
    case False
    with IH have "map_of d' f = map_of ?d1 f" by blast
    then show ?thesis by (simp add: map_of_dict_set)
  qed
  with IH v keys1 show ?case
    by (auto simp: map_of_dict_set)
qed

lemma copy_basic_loop:
  assumes "fold_raise (copy_basic tweet) fs d = Inr d'" and "set fs \<subseteq> set (map fst d)"
  shows "map fst d' = map fst d \<and>
         (\<forall>k. k \<notin> set fs \<longrightarrow> map_of d' k = map_of d k) \<and>
         (\<forall>k\<in>set fs. \<exists>v. py_get tweet k = Inr v \<and> map_of d' k = Some v)"
proof -
  have "copy_basic tweet = (\<lambda>x d. then_do (py_get tweet x) (\<lambda>v. Inr (dict_set d x v)))"
    by (simp add: copy_basic_def fun_eq_iff)
  with assms show ?thesis
    using setter_loop[of "py_get tweet" "\<lambda>v. v" fs d d'] by simp
qed

lemma copy_entity_loop:
  assumes "fold_raise (copy_entity entities) fs d = Inr d'" and "set fs \<subseteq> set (map fst d)"
  shows "map fst d' = map fst d \<and>
         (\<forall>k. k \<notin> set fs \<longrightarrow> map_of d' k = map_of d k) \<and>
         (\<forall>k\<in>set fs. \<exists>vs. dict_getitem entities k = Inr vs \<and> map_of d' k = Some (JArr vs))"
proof -
  have "copy_entity entities =
      (\<lambda>x d. then_do (dict_getitem entities x) (\<lambda>v. Inr (dict_set d x (JArr v))))"
    by (simp add: copy_entity_def fun_eq_iff)
  with assms show ?thesis
    using setter_loop[of "dict_getitem entities" JArr fs d d'] by simp
qed

lemma take_full_text_step:
  assumes "take_full_text tweet d = Inr d'" and "''text'' \<in> set (map fst d)"
  shows "map fst d' = map fst d \<and>
         (\<forall>k. k \<noteq> ''text'' \<longrightarrow> map_of d' k = map_of d k) \<and>
         (\<exists>truncated. py_get tweet ''truncated'' = Inr truncated \<and>
            (if truncated = JBool True
             then \<exists>extended full_text. py_get tweet ''extended_tweet'' = Inr extended \<and>
                    py_get extended ''full_text'' = Inr full_text \<and>
                    map_of d' ''text'' = Some full_text
             else d' = d))"
proof -
  obtain truncated where t: "py_get tweet ''truncated'' = Inr truncated"
    using assms(1) by (cases "py_get tweet ''truncated''") (simp_all add: take_full_text_def)
  show ?thesis
  proof (cases "truncated = JBool True")
    case False
    with assms(1) t show ?thesis by (simp add: take_full_text_def)
  next
    case True
    obtain extended where e: "py_get tweet ''extended_tweet'' = Inr extended"
      using assms(1) t True
      by (cases "py_get tweet ''extended_tweet''") (simp_all add: take_full_text_def)
    obtain full_text where f: "py_get extended ''full_text'' = Inr full_text"
      using assms(1) t True e
      by (cases "py_get extended ''full_text''") (simp_all add: take_full_text_def)
    have "d' = dict_set d ''text'' full_text"
      using assms(1) t True e f by (simp add: take_full_text_def)
    with assms(2) t True e f show ?thesis
      by (simp add: keys_dict_set map_of_dict_set)
  qed
qed

lemma copy_ref_step:
  assumes "copy_ref tweet field (d, rs) = Inr (d', rs')" and "field \<in> set (map fst d)"
  shows "map fst d' = map fst d \<and>
         (\<forall>k. k \<noteq> field \<longrightarrow> map_of d' k = map_of d k) \<and>
         (\<exists>ref. py_get tweet field = Inr ref \<and>
            rs' = rs @ filter (\<lambda>ref. ref \<noteq> JNull) [ref] \<and>
            (if ref \<noteq> JNull
             then \<exists>ref_id. py_get ref ''id_str'' = Inr ref_id \<and> map_of d' field = Some ref_id
             else d' = d))"
proof -
  obtain ref where r: "py_get tweet field = Inr ref"
    using assms(1) by (cases "py_get tweet field") (simp_all add: copy_ref_def)
  show ?thesis
  proof (cases "ref = JNull")
    case True
    with assms(1) r show ?thesis by (simp add: copy_ref_def)
  next
    case False
    obtain ref_id where i: "py_get ref ''id_str'' = Inr ref_id"
      using assms(1) r False by (cases "py_get ref ''id_str''") (simp_all add: copy_ref_def)
    have "d' = dict_set d field ref_id" "rs' = rs @ [ref]"
      using assms(1) r False i by (simp_all add: copy_ref_def)
    with assms(2) r False i show ?thesis
      by (simp add: keys_dict_set map_of_dict_set)
  qed
qed

lemma copy_ref_loop:
  assumes "fold_raise (copy_ref tweet) TWEET_REF_FIELDS (d, []) = Inr (d', refs)"
    and "set TWEET_REF_FIELDS \<subseteq> set (map fst d)"
  shows "map fst d' = map fst d \<and>
         (\<forall>k. k \<notin> set TWEET_REF_FIELDS \<longrightarrow> map_of d' k = map_of d k) \<and>
         (\<exists>rt qt. py_get tweet ''retweeted_status'' = Inr rt \<and>
            py_get tweet ''quoted_status'' = Inr qt \<and>
            refs = filter (\<lambda>ref. ref \<noteq> JNull) [rt, qt] \<and>
            (if rt \<noteq> JNull
             then \<exists>ref_id. py_get rt ''id_str'' = Inr ref_id \<and>
                    map_of d' ''retweeted_status'' = Some ref_id
             else map_of d' ''retweeted_status'' = map_of d ''retweeted_status'') \<and>
            (if qt \<noteq> JNull
             then \<exists>ref_id. py_get qt ''id_str'' = Inr ref_id \<and>
                    map_of d' ''quoted_status'' = Some ref_id
             else map_of d' ''quoted_status'' = map_of d ''quoted_status''))"
proof -
  obtain d1 rs1 where s1: "copy_ref tweet ''retweeted_status'' (d, []) = Inr (d1, rs1)"
    and s2: "copy_ref tweet ''quoted_status'' (d1, rs1) = Inr (d', refs)"
    using assms(1)
    by (cases "copy_ref tweet ''retweeted_status'' (d, [])")
       (auto simp: TWEET_REF_FIELDS_def split: sum.splits)
  have in1: "''retweeted_status'' \<in> set (map fst d)" and in2: "''quoted_status'' \<in> set (map fst d)"
    using assms(2) by (simp_all add: TWEET_REF_FIELDS_def)
  note a = copy_ref_step[OF s1 in1]
  from a in2 have "''quoted_status'' \<in> set (map fst d1)" by simp
  note b = copy_ref_step[OF s2 this]
  obtain rt where rt: "py_get tweet ''retweeted_status'' = Inr rt"
    "rs1 = filter (\<lambda>ref. ref \<noteq> JNull) [rt]"
    "if rt \<noteq> JNull
     then \<exists>ref_id. py_get rt ''id_str'' = Inr ref_id \<and> map_of d1 ''retweeted_status'' = Some ref_id
     else d1 = d"
    using a by auto
  obtain qt where qt: "py_get tweet ''quoted_status'' = Inr qt"
    "refs = rs1 @ filter (\<lambda>ref. ref \<noteq> JNull) [qt]"
    "if qt \<noteq> JNull
     then \<exists>ref_id. py_get qt ''id_str'' = Inr ref_id \<and> map_of d' ''quoted_status'' = Some ref_id
     else d' = d1"
    using b by auto
  have keep: "map_of d' ''retweeted_status'' = map_of d1 ''retweeted_status''"
    "map_of d1 ''quoted_status'' = map_of d ''quoted_status''"
    using a b by simp_all
  have "map fst d' = map fst d"
    using a b by simp
  moreover have "\<forall>k. k \<notin> set TWEET_REF_FIELDS \<longrightarrow> map_of d' k = map_of d k"
    using a b by (simp add: TWEET_REF_FIELDS_def)
  moreover have "refs = filter (\<lambda>ref. ref \<noteq> JNull) [rt, qt]"
    using rt(2) qt(2) by simp
  moreover have "if rt \<noteq> JNull
             then \<exists>ref_id. py_get rt ''id_str'' = Inr ref_id \<and>
                    map_of d' ''retweeted_status'' = Some ref_id
             else map_of d' ''retweeted_status'' = map_of d ''retweeted_status''"
    using rt(3) keep(1) by (auto split: if_splits)
  moreover have "if qt \<noteq> JNull
             then \<exists>ref_id. py_get qt ''id_str'' = Inr ref_id \<and>
                    map_of d' ''quoted_status'' = Some ref_id
             else map_of d' ''quoted_status'' = map_of d ''quoted_status''"
    using qt(3) keep(2) by (auto split: if_splits)
  ultimately show ?thesis
    using rt(1) qt(1) by blast
qed


text \<open>What \<^verbatim>\<open>record_tweet\<close> returns, field by field.\<close>

lemma distinct_FIELDNAMES: "distinct FIELDNAMES"
  by (simp add: FIELDNAMES_def BASIC_FIELDS_def TWEET_REF_FIELDS_def ENTITY_FIELDS_def)

lemma map_of_constant: "map_of (map (\<lambda>f. (f, v)) ks) k = (if k \<in> set ks then Some v else None)"
  by (induction ks) auto

lemma record_tweet_fields:
  assumes "record_tweet tweet = Inr (record, refs)"
  shows "map fst record = FIELDNAMES"
    and "\<forall>f\<in>set BASIC_FIELDS. f \<noteq> ''text'' \<longrightarrow>
           (\<exists>v. py_get tweet f = Inr v \<and> map_of record f = Some v)"
    and "\<exists>truncated. py_get tweet ''truncated'' = Inr truncated \<and>
           (if truncated = JBool True
            then \<exists>extended full_text. py_get tweet ''extended_tweet'' = Inr extended \<and>
                   py_get extended ''full_text'' = Inr full_text \<and>
                   map_of record ''text'' = Some full_text
            else \<exists>v. py_get tweet ''text'' = Inr v \<and> map_of record ''text'' = Some v)"
    and "\<exists>entities. extract_entities tweet = Inr entities \<and>
           (\<forall>f\<in>set ENTITY_FIELDS. \<exists>vs. dict_getitem entities f = Inr vs \<and>
              map_of record f = Some (JArr vs))"
    and "\<exists>rt qt. py_get tweet ''retweeted_status'' = Inr rt \<and>
           py_get tweet ''quoted_status'' = Inr qt \<and>
           refs = filter (\<lambda>ref. ref \<noteq> JNull) [rt, qt] \<and>
           (if rt \<noteq> JNull
            then \<exists>ref_id. py_get rt ''id_str'' = Inr ref_id \<and>
                   map_of record ''retweeted_status'' = Some ref_id
            else map_of record ''retweeted_status'' = Some JNull) \<and>
           (if qt \<noteq> JNull
            then \<exists>ref_id. py_get qt ''id_str'' = Inr ref_id \<and>
                   map_of record ''quoted_status'' = Some ref_id
            else map_of record ''quoted_status'' = Some JNull)"
    and "map_of record ''user.id_str'' = Some JNull"
proof -
  let ?r0 = "dict_fromkeys FIELDNAMES JNull"
  obtain r1 r2 entities r3 where
    s1: "fold_raise (copy_basic tweet) BASIC_FIELDS ?r0 = Inr r1" and
    s2: "take_full_text tweet r1 = Inr r2" and
    s3: "extract_entities tweet = Inr entities" and
    s4: "fold_raise (copy_entity entities) ENTITY_FIELDS r2 = Inr r3" and
    s5: "fold_raise (copy_ref tweet) TWEET_REF_FIELDS (r3, []) = Inr (record, refs)"
    using assms by (auto simp: record_tweet_def then_do_def Let_def split: sum.splits)
  have r0: "?r0 = map (\<lambda>f. (f, JNull)) FIELDNAMES"
    by (simp add: dict_fromkeys_distinct distinct_FIELDNAMES)
  have k0: "map fst ?r0 = FIELDNAMES"
    by (simp add: r0 comp_def)
  have v0: "map_of ?r0 k = (if k \<in> set FIELDNAMES then Some JNull else None)" for k
    by (simp add: r0 map_of_constant)
  have sub: "set BASIC_FIELDS \<subseteq> set FIELDNAMES" "set ENTITY_FIELDS \<subseteq> set FIELDNAMES"
    "set TWEET_REF_FIELDS \<subseteq> set FIELDNAMES" "''user.id_str'' \<in> set FIELDNAMES"
    by (auto simp: FIELDNAMES_def)
  have disj: "set BASIC_FIELDS \<inter> set ENTITY_FIELDS = {}"
    "set BASIC_FIELDS \<inter> set TWEET_REF_FIELDS = {}"
    "set ENTITY_FIELDS \<inter> set TWEET_REF_FIELDS = {}"
    "''user.id_str'' \<notin> set BASIC_FIELDS" "''user.id_str'' \<notin> set ENTITY_FIELDS"
    "''user.id_str'' \<notin> set TWEET_REF_FIELDS"
    using distinct_FIELDNAMES by (auto simp: FIELDNAMES_def)
  have text_in: "''text'' \<in> set BASIC_FIELDS"
    by (simp add: BASIC_FIELDS_def)
  have refs_in: "''retweeted_status'' \<in> set TWEET_REF_FIELDS"
    "''quoted_status'' \<in> set TWEET_REF_FIELDS"
    by (simp_all add: TWEET_REF_FIELDS_def)
  note a1 = copy_basic_loop[OF s1, unfolded k0, OF sub(1)]
  have "''text'' \<in> set (map fst r1)"
    using a1 text_in sub(1) by auto
  note a2 = take_full_text_step[OF s2 this]
  have "set ENTITY_FIELDS \<subseteq> set (map fst r2)"
    using a1 a2 sub(2) by simp
  note a4 = copy_entity_loop[OF s4 this]
  have "set TWEET_REF_FIELDS \<subseteq> set (map fst r3)"
    using a1 a2 a4 sub(3) by simp
  note a5 = copy_ref_loop[OF s5 this]
  show "map fst record = FIELDNAMES"
    using a1 a2 a4 a5 by simp
  show "\<forall>f\<in>set BASIC_FIELDS. f \<noteq> ''text'' \<longrightarrow>
           (\<exists>v. py_get tweet f = Inr v \<and> map_of record f = Some v)"
  proof (intro ballI impI)
    fix f assume f: "f \<in> set BASIC_FIELDS" "f \<noteq> ''text''"
    then obtain v where v: "py_get tweet f = Inr v" "map_of r1 f = Some v"
      using a1 by blast
    have "f \<notin> set ENTITY_FIELDS" "f \<notin> set TWEET_REF_FIELDS"
      using f(1) disj by auto
    then have "map_of record f = map_of r1 f"
      using a2 a4 a5 f(2) by simp
    with v show "\<exists>v. py_get tweet f = Inr v \<and> map_of record f = Some v"
      by simp
  qed
  have text_out: "''text'' \<notin> set ENTITY_FIELDS" "''text'' \<notin> set TWEET_REF_FIELDS"
    using text_in disj by auto
  then have t3: "map_of record ''text'' = map_of r2 ''text''"
    using a4 a5 by simp
  obtain v where v: "py_get tweet ''text'' = Inr v" "map_of r1 ''text'' = Some v"
    using a1 text_in by blast
  show "\<exists>truncated. py_get tweet ''truncated'' = Inr truncated \<and>
           (if truncated = JBool True
            then \<exists>extended full_text. py_get tweet ''extended_tweet'' = Inr extended \<and>
                   py_get extended ''full_text'' = Inr full_text \<and>
                   map_of record ''text'' = Some full_text
            else \<exists>v. py_get tweet ''text'' = Inr v \<and> map_of record ''text'' = Some v)"
    using a2 t3 v by (auto split: if_splits)
  have "\<forall>f\<in>set ENTITY_FIELDS. \<exists>vs. dict_getitem entities f = Inr vs \<and>
              map_of record f = Some (JArr vs)"
  proof (rule ballI)
    fix f assume f: "f \<in> set ENTITY_FIELDS"
    then obtain vs where vs: "dict_getitem entities f = Inr vs" "map_of r3 f = Some (JArr vs)"
      using a4 by blast
    have "f \<notin> set TWEET_REF_FIELDS"
      using f disj by auto
    then have "map_of record f = map_of r3 f"
      using a5 by simp
    with vs show "\<exists>vs. dict_getitem entities f = Inr vs \<and> map_of record f = Some (JArr vs)"
      by simp
  qed
  with s3 show "\<exists>entities. extract_entities tweet = Inr entities \<and>
           (\<forall>f\<in>set ENTITY_FIELDS. \<exists>vs. dict_getitem entities f = Inr vs \<and>
              map_of record f = Some (JArr vs))"
    by blast
  have ref0: "map_of r3 f = Some JNull" if "f \<in> set TWEET_REF_FIELDS" for f
  proof -
    have "f \<notin> set BASIC_FIELDS" "f \<notin> set ENTITY_FIELDS" "f \<noteq> ''text''"
      using that disj text_in by auto
    then have "map_of r3 f = map_of ?r0 f"
      using a1 a2 a4 by simp
    with that sub(3) show ?thesis
      by (auto simp: v0)
  qed
  show "\<exists>rt qt. py_get tweet ''retweeted_status'' = Inr rt \<and>
           py_get tweet ''quoted_status'' = Inr qt \<and>
           refs = filter (\<lambda>ref. ref \<noteq> JNull) [rt, qt] \<and>
           (if rt \<noteq> JNull
            then \<exists>ref_id. py_get rt ''id_str'' = Inr ref_id \<and>
                   map_of record ''retweeted_status'' = Some ref_id
            else map_of record ''retweeted_status'' = Some JNull) \<and>
           (if qt \<noteq> JNull
            then \<exists>ref_id. py_get qt ''id_str'' = Inr ref_id \<and>
                   map_of record ''quoted_status'' = Some ref_id
            else map_of record ''quoted_status'' = Some JNull)"
  proof -
    obtain rt qt where rq: "py_get tweet ''retweeted_status'' = Inr rt"
      "py_get tweet ''quoted_status'' = Inr qt"
      "refs = filter (\<lambda>ref. ref \<noteq> JNull) [rt, qt]"
      "if rt \<noteq> JNull
       then \<exists>ref_id. py_get rt ''id_str'' = Inr ref_id \<and>
              map_of record ''retweeted_status'' = Some ref_id
       else map_of record ''retweeted_status'' = map_of r3 ''retweeted_status''"
      "if qt \<noteq> JNull
       then \<exists>ref_id. py_get qt ''id_str'' = Inr ref_id \<and>
              map_of record ''quoted_status'' = Some ref_id
       else map_of record ''quoted_status'' = map_of r3 ''quoted_status''"
      using a5 by blast
    have "if rt \<noteq> JNull
       then \<exists>ref_id. py_get rt ''id_str'' = Inr ref_id \<and>
              map_of record ''retweeted_status'' = Some ref_id
       else map_of record ''retweeted_status'' = Some JNull"
      using rq(4) ref0[OF refs_in(1)] by (cases "rt = JNull") simp_all
    moreover have "if qt \<noteq> JNull
       then \<exists>ref_id. py_get qt ''id_str'' = Inr ref_id \<and>
              map_of record ''quoted_status'' = Some ref_id
       else map_of record ''quoted_status'' = Some JNull"
      using rq(5) ref0[OF refs_in(2)] by (cases "qt = JNull") simp_all
    ultimately show ?thesis
      using rq(1,2,3) by blast
  qed
  have "map_of record ''user.id_str'' = map_of ?r0 ''user.id_str''"
    using a1 a2 a4 a5 disj text_in by auto
  then show "map_of record ''user.id_str'' = Some JNull"
    using sub(4) by (simp add: v0)
qed

text \<open>Without truncation only the base entities are parsed; \<^verbatim>\<open>process_tweet\<close> recurses
  into the embedded tweets \<^verbatim>\<open>record_tweet\<close> returned.\<close>

lemma extract_entities_base_only:
  assumes "py_get tweet ''entities'' = Inr entities"
    and "py_get tweet ''truncated'' = Inr truncated" and "truncated \<noteq> JBool True"
  shows "extract_entities tweet = parse_entity_details entities"
  using assms
  by (cases "parse_entity_details entities") (simp_all add: extract_entities_def)

lemma flat_records_refs_same:
  assumes "flat_records str_lower tweet kf = Inr (r, u, refs')" and "record_tweet tweet = Inr (record, refs)"
  shows "refs' = refs"
  using assms
  by (auto simp: flat_records_def then_do_def split: sum.splits)

section \<open>The schema of the flat record (C1)\<close>

text \<open>Whenever \<^verbatim>\<open>record_tweet\<close> returns, the keys of the record are exactly \<^verbatim>\<open>FIELDNAMES\<close>, in
  order and each once. A scalar or reference field that the tweet lacks is null under
  its key (\<^verbatim>\<open>text\<close> of a tweet whose \<^verbatim>\<open>truncated\<close> is \<^verbatim>\<open>True\<close> holds what
  \<^verbatim>\<open>extended_tweet.get("full_text")\<close> gives), every entity field holds a list, and
  \<^verbatim>\<open>user.id_str\<close> is null.\<close>

lemma record_tweet_schema:
  assumes "record_tweet tweet = Inr (record, refs)"
  shows "map fst record = FIELDNAMES \<and> distinct (map fst record) \<and>
    (\<forall>f\<in>set (BASIC_FIELDS @ TWEET_REF_FIELDS).
        f \<noteq> ''text'' \<and> py_get tweet f = Inr JNull \<longrightarrow> map_of record f = Some JNull) \<and>
    (py_get tweet ''truncated'' \<noteq> Inr (JBool True) \<and> py_get tweet ''text'' = Inr JNull \<longrightarrow>
        map_of record ''text'' = Some JNull) \<and>
    (py_get tweet ''truncated'' = Inr (JBool True) \<longrightarrow>
        (\<exists>extended full_text. py_get tweet ''extended_tweet'' = Inr extended \<and>
           py_get extended ''full_text'' = Inr full_text \<and>
           map_of record ''text'' = Some full_text)) \<and>
    (\<forall>f\<in>set ENTITY_FIELDS. \<exists>vs. map_of record f = Some (JArr vs)) \<and>
    (py_get tweet ''truncated'' \<noteq> Inr (JBool True) \<and> py_get tweet ''entities'' = Inr JNull \<longrightarrow>
        (\<forall>f\<in>set ENTITY_FIELDS. map_of record f = Some (JArr []))) \<and>
    map_of record ''user.id_str'' = Some JNull"
proof -
  note f = record_tweet_fields[OF assms]
  have keys: "map fst record = FIELDNAMES" by (rule f(1))
  have basic: "map_of record k = Some JNull"
    if "k \<in> set BASIC_FIELDS" "k \<noteq> ''text''" "py_get tweet k = Inr JNull" for k
    using f(2) that by auto
  have refs: "map_of record k = Some JNull"
    if "k \<in> set TWEET_REF_FIELDS" "py_get tweet k = Inr JNull" for k
    using f(5) that by (auto simp: TWEET_REF_FIELDS_def)
  have c3: "\<forall>f\<in>set (BASIC_FIELDS @ TWEET_REF_FIELDS).
        f \<noteq> ''text'' \<and> py_get tweet f = Inr JNull \<longrightarrow> map_of record f = Some JNull"
    using basic refs by auto
  have c4: "py_get tweet ''truncated'' \<noteq> Inr (JBool True) \<and> py_get tweet ''text'' = Inr JNull \<longrightarrow>
        map_of record ''text'' = Some JNull"
    using f(3) by (auto split: if_splits)
  have c5: "py_get tweet ''truncated'' = Inr (JBool True) \<longrightarrow>
        (\<exists>extended full_text. py_get tweet ''extended_tweet'' = Inr extended \<and>
           py_get extended ''full_text'' = Inr full_text \<and>
           map_of record ''text'' = Some full_text)"
    using f(3) by (auto split: if_splits)
  have c6: "\<forall>f\<in>set ENTITY_FIELDS. \<exists>vs. map_of record f = Some (JArr vs)"
    using f(4) by blast
  have c7: "\<forall>f\<in>set ENTITY_FIELDS. map_of record f = Some (JArr [])"
    if "py_get tweet ''truncated'' \<noteq> Inr (JBool True)" "py_get tweet ''entities'' = Inr JNull"
  proof -
    obtain truncated where t: "py_get tweet ''truncated'' = Inr truncated"
      using f(3) by blast
    with that(1) have "truncated \<noteq> JBool True" by simp
    then have "extract_entities tweet = Inr (entity_record [] [] [] [] [] [])"
      using extract_entities_base_only[OF that(2) t] by (simp add: parse_entity_details_None)
    moreover have "\<forall>f\<in>set ENTITY_FIELDS.
        dict_getitem (entity_record [] [] [] [] [] []) f = Inr []"
      by (simp add: ENTITY_FIELDS_def entity_record_def dict_getitem_def)
    ultimately show ?thesis
      using f(4) by fastforce
  qed
  have d: "distinct (map fst record)"
    unfolding keys by (rule distinct_FIELDNAMES)
  have c7': "py_get tweet ''truncated'' \<noteq> Inr (JBool True) \<and> py_get tweet ''entities'' = Inr JNull \<longrightarrow>
        (\<forall>f\<in>set ENTITY_FIELDS. map_of record f = Some (JArr []))"
    using c7 by blast
  from keys d c3 c4 c5 c6 c7' f(6) show ?thesis
    by - (intro conjI, assumption+)
qed

text \<open>
  C1 fails on the code. The claim covers every combination of present and absent
  optional fields, but for a tweet whose \<^verbatim>\<open>truncated\<close> is \<^verbatim>\<open>True\<close> and which has no
  \<^verbatim>\<open>extended_tweet\<close>, \<^verbatim>\<open>record_tweet\<close> raises \<^verbatim>\<open>AttributeError\<close>: no record is returned, and
  the absent field is not mapped to null.
\<close>

theorem record_tweet_returns_no_record:
  "record_tweet (JObj [(''id_str'', JStr ''5''), (''text'', JStr ''clipped''),
                       (''truncated'', JBool True),
                       (''entities'', JObj [(''hashtags'', JArr [])]),
                       (''user'', JObj [(''id_str'', JStr ''9''),
                                        (''screen_name'', JStr ''ann'')])]) =
   Inl AttributeError"
  by code_simp

section \<open>Embedded tweets (C7)\<close>

text \<open>The records \<^verbatim>\<open>process_tweet\<close> writes are those of \<^verbatim>\<open>record_tweet\<close> and \<^verbatim>\<open>record_user\<close>:
  apart from the flag column and \<^verbatim>\<open>user.id_str\<close>, which is copied from the user
  record, the tweet record is unchanged.\<close>

lemma flat_records_parts:
  assumes "flat_records str_lower t kf = Inr (r, u, rs)"
  shows "\<exists>rec. record_tweet t = Inr (rec, rs) \<and> record_user t = Inr u \<and>
           (\<forall>f. f \<noteq> ''user.id_str'' \<and> keyword_flag_of kf \<noteq> Some f \<longrightarrow>
              map_of r f = map_of rec f) \<and>
           map_of r ''user.id_str'' = map_of u ''user.id_str''"
proof -
  obtain rec where rt: "record_tweet t = Inr (rec, rs)"
    using assms
    by (cases "record_tweet t") (auto simp: flat_records_def then_do_def split: sum.splits)
  let ?flagged = "case kf of
                Some self \<Rightarrow>
                  (case self_flag self of
                     Some (c # cs) \<Rightarrow>
                       then_do (check_tweet str_lower self t) (\<lambda>b.
                       Inr (dict_set rec (c # cs) (JBool b)))
                   | _ \<Rightarrow> Inr rec)
              | None \<Rightarrow> Inr rec"
  have eq: "then_do ?flagged (\<lambda>record.
       then_do (record_user t) (\<lambda>user_record.
       then_do (dict_getitem user_record ''user.id_str'') (\<lambda>user_id.
       Inr (dict_set record ''user.id_str'' user_id, user_record, rs)))) = Inr (r, u, rs)"
    using assms unfolding flat_records_def rt then_do_Inr fst_conv snd_conv .
  obtain r1 where r1: "?flagged = Inr r1"
    using eq by (cases ?flagged) simp_all
  have keep: "map_of r1 f = map_of rec f" if "keyword_flag_of kf \<noteq> Some f" for f
    using r1 that
    by (auto simp: keyword_flag_of_def then_do_def map_of_dict_set
        split: option.splits list.splits sum.splits)
  have eq2: "then_do (record_user t) (\<lambda>user_record.
       then_do (dict_getitem user_record ''user.id_str'') (\<lambda>user_id.
       Inr (dict_set r1 ''user.id_str'' user_id, user_record, rs))) = Inr (r, u, rs)"
    using eq unfolding r1 then_do_Inr .
  obtain u0 where u0: "record_user t = Inr u0"
    using eq2 by (cases "record_user t") simp_all
  have eq3: "then_do (dict_getitem u0 ''user.id_str'') (\<lambda>user_id.
       Inr (dict_set r1 ''user.id_str'' user_id, u0, rs)) = Inr (r, u, rs)"
    using eq2 unfolding u0 then_do_Inr .
  obtain uid where uid: "dict_getitem u0 ''user.id_str'' = Inr uid"
    using eq3 by (cases "dict_getitem u0 ''user.id_str''") simp_all
  have u: "record_user t = Inr u" "dict_getitem u ''user.id_str'' = Inr uid"
    "r = dict_set r1 ''user.id_str'' uid"
    using eq3 u0 uid by simp_all
  have "map_of u ''user.id_str'' = Some uid"
    using u(2) by (auto simp: dict_getitem_def split: option.splits)
  with rt u keep show ?thesis
    by (auto simp: map_of_dict_set)
qed




section \<open>A missing entity kind (C9)\<close>

text \<open>Iterating \<^verbatim>\<open>None\<close> raises; the parser tests for \<^verbatim>\<open>None\<close> first.\<close>

lemma lowered_texts_None: "lowered_texts str_lower JNull = Inl TypeError"
  by (simp add: lowered_texts_def)

lemma screen_names_None: "screen_names JNull = Inl TypeError"
  by (simp add: screen_names_def)

lemma kind_links_None: "kind_links key JNull = Inr []"
  by (simp add: kind_links_def nonempty_def)

lemma check_entities_base_raises:
  assumes "py_get tweet ''entities'' = Inr (JObj kvs)" and "kvs \<noteq> []"
    and "then_do (py_get (JObj kvs) ''hashtags'') (\<lambda>hs.
         then_do (lowered_texts str_lower hs) (\<lambda>hashtags.
         then_do (py_get (JObj kvs) ''user_mentions'') (\<lambda>ms.
         then_do (screen_names ms) (\<lambda>mentions.
         Inr (hashtags, mentions))))) = Inl e"
  shows "check_entities str_lower self tweet = Inl e"
  using assms by (simp add: check_entities_def)

text \<open>
  C9: for a tweet whose \<^verbatim>\<open>entities\<close> is a non-empty object without \<^verbatim>\<open>hashtags\<close> or without
  \<^verbatim>\<open>user_mentions\<close>, \<^verbatim>\<open>check_entities\<close> raises (a \<^verbatim>\<open>TypeError\<close> when \<^verbatim>\<open>hashtags\<close> is the
  missing one). On the same object \<^verbatim>\<open>parse_entity_details\<close> gives the empty list for
  the missing kinds whenever it returns, and it returns when the kinds that are there
  are well formed.
\<close>

theorem check_entities_missing_kind:
  assumes "py_get tweet ''entities'' = Inr (JObj kvs)" and "kvs \<noteq> []"
    and "map_of kvs ''hashtags'' = None \<or> map_of kvs ''user_mentions'' = None"
  shows "(\<exists>e. check_entities str_lower self tweet = Inl e) \<and>
         (map_of kvs ''hashtags'' = None \<longrightarrow> check_entities str_lower self tweet = Inl TypeError) \<and>
         (\<forall>r. parse_entity_details (JObj kvs) = Inr r \<longrightarrow>
            (map_of kvs ''hashtags'' = None \<longrightarrow> dict_getitem r ''hashtags'' = Inr []) \<and>
            (map_of kvs ''user_mentions'' = None \<longrightarrow>
               dict_getitem r ''user_id_mentions'' = Inr [] \<and>
               dict_getitem r ''user_screenname_mentions'' = Inr [])) \<and>
         (well_formed_entities (JObj kvs) \<longrightarrow> (\<exists>r. parse_entity_details (JObj kvs) = Inr r))"
proof -
  let ?base = "then_do (py_get (JObj kvs) ''hashtags'') (\<lambda>hs.
         then_do (lowered_texts str_lower hs) (\<lambda>hashtags.
         then_do (py_get (JObj kvs) ''user_mentions'') (\<lambda>ms.
         then_do (screen_names ms) (\<lambda>mentions.
         Inr (hashtags, mentions)))))"
  have h: "?base = Inl TypeError" if "map_of kvs ''hashtags'' = None"
    using that by (simp add: lowered_texts_None)
  have m: "\<exists>e. ?base = Inl e" if "map_of kvs ''user_mentions'' = None"
  proof (cases "lowered_texts str_lower (case map_of kvs ''hashtags'' of None \<Rightarrow> JNull | Some v \<Rightarrow> v)")
    case (Inl e)
    then show ?thesis by simp
  next
    case (Inr hashtags)
    with that show ?thesis by (simp add: screen_names_None)
  qed
  have c1: "\<exists>e. check_entities str_lower self tweet = Inl e"
    using assms(3) h m check_entities_base_raises[OF assms(1,2)] by blast
  have c2: "map_of kvs ''hashtags'' = None \<longrightarrow> check_entities str_lower self tweet = Inl TypeError"
    using h check_entities_base_raises[OF assms(1,2)] by blast
  have c3: "\<forall>r. parse_entity_details (JObj kvs) = Inr r \<longrightarrow>
            (map_of kvs ''hashtags'' = None \<longrightarrow> dict_getitem r ''hashtags'' = Inr []) \<and>
            (map_of kvs ''user_mentions'' = None \<longrightarrow>
               dict_getitem r ''user_id_mentions'' = Inr [] \<and>
               dict_getitem r ''user_screenname_mentions'' = Inr [])"
    by (auto simp: parse_entity_details_kinds kind_links_None then_do_def dict_getitem_def
        split: sum.splits)
  have c4: "well_formed_entities (JObj kvs) \<longrightarrow> (\<exists>r. parse_entity_details (JObj kvs) = Inr r)"
    using parse_entity_details_well_formed by blast
  from c1 c2 c3 c4 show ?thesis
    by - (intro conjI, assumption+)
qed

theorem check_entities_missing_kind_witness:
  "check_entities ascii_lower \<lparr>self_keywords = Some [''cat''], self_flag = None, self_do_filter = True,
                    self_filters = [Entities]\<rparr>
     (JObj [(''entities'', JObj [(''urls'', JArr [JObj [(''expanded_url'', JStr ''u'')]])]),
            (''truncated'', JBool False)]) = Inl TypeError \<and>
   parse_entity_details (JObj [(''urls'', JArr [JObj [(''expanded_url'', JStr ''u'')]])]) =
     Inr (entity_record [JStr ''u''] [] [] [] [] [])"
proof -
  have p: "parse_entity_details (JObj [(''urls'', JArr [JObj [(''expanded_url'', JStr ''u'')]])]) =
     Inr (entity_record [JStr ''u''] [] [] [] [] [])"
    by code_simp
  have "check_entities ascii_lower \<lparr>self_keywords = Some [''cat''], self_flag = None, self_do_filter = True,
                    self_filters = [Entities]\<rparr>
     (JObj [(''entities'', JObj [(''urls'', JArr [JObj [(''expanded_url'', JStr ''u'')]])]),
            (''truncated'', JBool False)]) = Inl TypeError"
    using check_entities_missing_kind
      [of "JObj [(''entities'', JObj [(''urls'', JArr [JObj [(''expanded_url'', JStr ''u'')]])]),
            (''truncated'', JBool False)]"
          "[(''urls'', JArr [JObj [(''expanded_url'', JStr ''u'')]])]" ascii_lower
          "\<lparr>self_keywords = Some [''cat''], self_flag = None, self_do_filter = True,
                    self_filters = [Entities]\<rparr>"]
    by simp
  with p show ?thesis by simp
qed

section \<open>Two readings of the truncated flag (C10)\<close>

text \<open>\<^verbatim>\<open>check_entities\<close> cannot return once \<^verbatim>\<open>tweet['truncated']\<close> or, for a truthy flag,
  \<^verbatim>\<open>tweet['extended_tweet']\<close> raises.\<close>

lemma check_entities_needs_truncated:
  assumes "py_getitem tweet ''truncated'' = Inl err"
  shows "\<exists>e. check_entities str_lower self tweet = Inl e"
  using assms by (auto simp: check_entities_def then_do_def split: sum.splits)

lemma check_entities_needs_extended:
  assumes "py_getitem tweet ''truncated'' = Inr t" and "truthy t"
    and "py_getitem tweet ''extended_tweet'' = Inl err"
  shows "\<exists>e. check_entities str_lower self tweet = Inl e"
  using assms by (auto simp: check_entities_def then_do_def split: sum.splits)

text \<open>For a tweet that is an object and whose \<^verbatim>\<open>truncated\<close> is not \<^verbatim>\<open>True\<close>, \<^verbatim>\<open>record_tweet\<close>
  returns as soon as the base entities parse and the embedded tweets, if any, are
  objects: nothing is asked of the \<^verbatim>\<open>truncated\<close> key.\<close>

lemma copy_basic_loop_returns:
  "\<exists>d'. fold_raise (copy_basic (JObj kvs)) fs d = Inr d'"
  by (induction fs arbitrary: d) (simp_all add: copy_basic_def)

lemma record_tweet_returns:
  assumes t: "py_get (JObj kvs) ''truncated'' = Inr t" "t \<noteq> JBool True"
    and e: "py_get (JObj kvs) ''entities'' = Inr e" "parse_entity_details e = Inr p"
    and refs: "\<forall>f\<in>set TWEET_REF_FIELDS. \<forall>ref. py_get (JObj kvs) f = Inr ref \<longrightarrow>
            ref = JNull \<or> (\<exists>obj. ref = JObj obj)"
  shows "\<exists>rcd refs. record_tweet (JObj kvs) = Inr (rcd, refs)"
proof -
  obtain r1 where r1: "fold_raise (copy_basic (JObj kvs)) BASIC_FIELDS
      (dict_fromkeys FIELDNAMES JNull) = Inr r1"
    using copy_basic_loop_returns by blast
  have r2: "take_full_text (JObj kvs) r1 = Inr r1"
    using t by (simp add: take_full_text_def)
  have x: "extract_entities (JObj kvs) = Inr p"
    using extract_entities_base_only[OF e(1) t] e(2) by simp
  obtain a1 a2 a3 a4 a5 a6 where p: "p = entity_record a1 a2 a3 a4 a5 a6"
    using parse_entity_details_shape[OF e(2)] by blast
  obtain r3 where r3: "fold_raise (copy_entity p) ENTITY_FIELDS r1 = Inr r3"
    unfolding p
    by (simp add: ENTITY_FIELDS_def copy_entity_def dict_getitem_def entity_record_def)
  have step: "\<exists>y. copy_ref (JObj kvs) f rr = Inr y" if "f \<in> set TWEET_REF_FIELDS" for f rr
  proof -
    obtain ref where ref: "py_get (JObj kvs) f = Inr ref"
      by simp
    with refs that have "ref = JNull \<or> (\<exists>obj. ref = JObj obj)"
      by blast
    with ref show ?thesis
      by (auto simp: copy_ref_def)
  qed
  obtain y1 where y1: "copy_ref (JObj kvs) ''retweeted_status'' (r3, []) = Inr y1"
    using step[of "''retweeted_status''" "(r3, [])"] by (auto simp: TWEET_REF_FIELDS_def)
  obtain y2 where y2: "copy_ref (JObj kvs) ''quoted_status'' y1 = Inr y2"
    using step[of "''quoted_status''" y1] by (auto simp: TWEET_REF_FIELDS_def)
  have "record_tweet (JObj kvs) = Inr y2"
    by (simp add: record_tweet_def r1 r2 x r3 y1 y2 TWEET_REF_FIELDS_def)
  then show ?thesis
    by (cases y2) auto
qed

lemma record_tweet_needs_extended:
  assumes "py_get (JObj kvs) ''truncated'' = Inr (JBool True)"
    and "map_of kvs ''extended_tweet'' = None"
  shows "record_tweet (JObj kvs) = Inl AttributeError"
proof -
  obtain r1 where r1: "fold_raise (copy_basic (JObj kvs)) BASIC_FIELDS
      (dict_fromkeys FIELDNAMES JNull) = Inr r1"
    using copy_basic_loop_returns by blast
  have "take_full_text (JObj kvs) r1 = Inl AttributeError"
    using assms by (simp add: take_full_text_def)
  with r1 show ?thesis
    by (simp add: record_tweet_def)
qed



end
